theory Spec2Isabelle
  imports
    Complex_Main
    "HOL-Library.Multiset"
    "HOL-Library.Sublist"
    "HOL-Library.Char_ord"
    "HOL-Library.List_Lexorder"
begin

section \<open>Student-teacher matcher: data model\<close>

text \<open>
  The matching engine of \<^verbatim>\<open>src/matcher.py\<close> and the overlap utilities of
  \<^verbatim>\<open>src/utils.py\<close>. A DataFrame is the list of its rows, a row is a record of the
  columns the matcher reads, a raised exception is an \<open>Inl\<close> value. Strings are ordered
  lexicographically by character code, which is the order of Python's \<^verbatim>\<open>sorted\<close> on
  \<^verbatim>\<open>str\<close>.
\<close>

datatype error = TypeError | KeyError | IndexError | ValueError

text \<open>
  The overlap utilities check their arguments at run time (\<^verbatim>\<open>isinstance\<close>), so
  they are modelled on untyped Python values.
\<close>

datatype pyval = PNone | PBool bool | PInt int | PStr string | PList "pyval list"

record student =
  student_id :: int
  s_subjects :: "string list"
  preferred_time_slots :: "string list"

record teacher =
  teacher_id :: int
  t_subjects :: "string list"
  available_time_slots :: "string list"
  max_students_per_slot :: int

record assignment =
  a_student_id :: int
  a_teacher_id :: int
  time_slot :: string
  lesson_type :: string

record feedback =
  f_teacher_id :: int
  rating :: rat

text \<open>\<^verbatim>\<open>teacher_slots\<close>: teacher id to (slot to occupancy), a dict of dicts.\<close>

type_synonym usage = "int \<rightharpoonup> (string \<rightharpoonup> int)"

section \<open>Overlap utilities (utils.py)\<close>

fun isinstance_list :: "pyval \<Rightarrow> bool" where
  "isinstance_list (PList xs) = True"
| "isinstance_list v = False"

fun isinstance_str :: "pyval \<Rightarrow> bool" where
  "isinstance_str (PStr s) = True"
| "isinstance_str v = False"

fun items :: "pyval \<Rightarrow> pyval list" where
  "items (PList xs) = xs"
| "items v = []"

fun str_values :: "pyval list \<Rightarrow> string list" where
  "str_values [] = []"
| "str_values (PStr s # vs) = s # str_values vs"
| "str_values (v # vs) = str_values vs"

text \<open>\<^verbatim>\<open>bool(set(student_subjects) & set(teacher_subjects))\<close> after the two type checks.\<close>

definition subject_overlap :: "pyval \<Rightarrow> pyval \<Rightarrow> error + bool" where
  "subject_overlap student_subjects teacher_subjects =
     (if \<not> isinstance_list student_subjects \<or> \<not> isinstance_list teacher_subjects
      then Inl TypeError
      else if \<not> list_all isinstance_str (items student_subjects @ items teacher_subjects)
      then Inl TypeError
      else Inr (list_ex (\<lambda>x. x \<in> set (items teacher_subjects)) (items student_subjects)))"

text \<open>\<^verbatim>\<open>sorted(set(student_times) & set(teacher_times))\<close> after the two type checks.\<close>

definition available_time_overlap :: "pyval \<Rightarrow> pyval \<Rightarrow> error + string list" where
  "available_time_overlap student_times teacher_times =
     (if \<not> isinstance_list student_times \<or> \<not> isinstance_list teacher_times
      then Inl TypeError
      else if \<not> list_all isinstance_str (items student_times @ items teacher_times)
      then Inl TypeError
      else Inr (sort (remdups (filter (\<lambda>x. x \<in> set (str_values (items teacher_times)))
                  (str_values (items student_times))))))"

text \<open>The matcher passes the list-valued columns of a row to the utilities.\<close>

definition as_list :: "string list \<Rightarrow> pyval" where
  "as_list xs = PList (map PStr xs)"

section \<open>Baseline matcher (matcher.py)\<close>

definition assign_student_to_slot :: "int \<Rightarrow> int \<Rightarrow> string \<Rightarrow> int \<Rightarrow> assignment" where
  "assign_student_to_slot sid tid slot current_count =
     \<lparr>a_student_id = sid, a_teacher_id = tid, time_slot = slot,
      lesson_type = (if current_count = 0 then ''1:1'' else ''group'')\<rparr>"

text \<open>
  The dict comprehension over \<^verbatim>\<open>teachers.set_index("teacher_id").iterrows()\<close>: one
  entry per teacher id, a later row with the same id replacing an earlier one.
\<close>

definition teacher_slots_init :: "teacher list \<Rightarrow> usage" where
  "teacher_slots_init teachers =
     foldl (\<lambda>m t. m(teacher_id t \<mapsto> map_of (map (\<lambda>slot. (slot, 0)) (available_time_slots t))))
       Map.empty teachers"

text \<open>\<^verbatim>\<open>teacher_slots[tid][slot]\<close>; \<open>None\<close> is the KeyError of either subscript.\<close>

definition lookup :: "usage \<Rightarrow> int \<Rightarrow> string \<Rightarrow> int option" where
  "lookup ts tid slot = (case ts tid of None \<Rightarrow> None | Some m \<Rightarrow> m slot)"

text \<open>\<^verbatim>\<open>teacher_slots[tid][slot] += 1\<close>, executed only after the entry was read.\<close>

definition increment :: "usage \<Rightarrow> int \<Rightarrow> string \<Rightarrow> usage" where
  "increment ts tid slot =
     (case ts tid of
        None \<Rightarrow> ts
      | Some m \<Rightarrow> (case m slot of None \<Rightarrow> ts | Some c \<Rightarrow> ts(tid \<mapsto> m(slot \<mapsto> c + 1))))"

text \<open>
  The loop \<^verbatim>\<open>for slot in common_slots\<close> up to its \<^verbatim>\<open>break\<close>: the first slot whose
  occupancy is below the capacity, with the occupancy read there.
\<close>

fun first_free_slot :: "usage \<Rightarrow> int \<Rightarrow> int \<Rightarrow> string list \<Rightarrow> error + (string \<times> int) option" where
  "first_free_slot ts tid cap [] = Inr None"
| "first_free_slot ts tid cap (slot # rest) =
     (case lookup ts tid slot of
        None \<Rightarrow> Inl KeyError
      | Some c \<Rightarrow> if c < cap then Inr (Some (slot, c)) else first_free_slot ts tid cap rest)"

text \<open>
  The loop \<^verbatim>\<open>for _, teacher in teachers.iterrows()\<close> of the baseline matcher up to its
  \<^verbatim>\<open>break\<close>: the teacher row, slot and pre-increment occupancy of the commit, if any.
\<close>

fun scan_teachers :: "usage \<Rightarrow> student \<Rightarrow> teacher list \<Rightarrow> error + (teacher \<times> string \<times> int) option" where
  "scan_teachers ts s [] = Inr None"
| "scan_teachers ts s (t # rest) =
     (case subject_overlap (as_list (s_subjects s)) (as_list (t_subjects t)) of
        Inl e \<Rightarrow> Inl e
      | Inr ov \<Rightarrow>
          if ov then
            (case available_time_overlap (as_list (preferred_time_slots s))
                    (as_list (available_time_slots t)) of
               Inl e \<Rightarrow> Inl e
             | Inr common_slots \<Rightarrow>
                 (case first_free_slot ts (teacher_id t) (max_students_per_slot t) common_slots of
                    Inl e \<Rightarrow> Inl e
                  | Inr None \<Rightarrow> scan_teachers ts s rest
                  | Inr (Some (slot, c)) \<Rightarrow> Inr (Some (t, slot, c))))
          else scan_teachers ts s rest)"

text \<open>
  The loop \<^verbatim>\<open>for _, student in students.iterrows()\<close>, threading the usage table and
  the schedule.
\<close>

fun baseline_loop ::
  "teacher list \<Rightarrow> usage \<Rightarrow> assignment list \<Rightarrow> student list \<Rightarrow> error + (usage \<times> assignment list)" where
  "baseline_loop teachers ts schedule [] = Inr (ts, schedule)"
| "baseline_loop teachers ts schedule (s # rest) =
     (case scan_teachers ts s teachers of
        Inl e \<Rightarrow> Inl e
      | Inr None \<Rightarrow> baseline_loop teachers ts schedule rest
      | Inr (Some (t, slot, c)) \<Rightarrow>
          baseline_loop teachers (increment ts (teacher_id t) slot)
            (schedule @ [assign_student_to_slot (student_id s) (teacher_id t) slot c]) rest)"

text \<open>
  The required columns are fields of the row records, so the two \<^verbatim>\<open>ValueError\<close>
  checks on missing columns always pass.
\<close>

definition match_students_to_teachers :: "student list \<Rightarrow> teacher list \<Rightarrow> error + assignment list" where
  "match_students_to_teachers students teachers =
     (case baseline_loop teachers (teacher_slots_init teachers) [] students of
        Inl e \<Rightarrow> Inl e
      | Inr (ts, schedule) \<Rightarrow> Inr schedule)"

section \<open>Feedback-loop matcher (matcher.py)\<close>

text \<open>
  \<^verbatim>\<open>teacher_weights\<close>: the mean rating of a teacher's feedback rows divided by 5, and
  the default 1.0 of the \<^verbatim>\<open>defaultdict\<close> for a teacher without feedback (also when
  \<^verbatim>\<open>feedback_df\<close> is \<^verbatim>\<open>None\<close> or empty). The floating-point means are taken as
  exact rationals.
\<close>

definition teacher_weights :: "feedback list option \<Rightarrow> int \<Rightarrow> rat" where
  "teacher_weights feedback_df tid =
     (case feedback_df of
        None \<Rightarrow> 1
      | Some rows \<Rightarrow>
          (let ratings = map rating (filter (\<lambda>r. f_teacher_id r = tid) rows)
           in if ratings = [] then 1 else (sum_list ratings / of_nat (length ratings)) / 5))"

text \<open>
  \<^verbatim>\<open>pd.merge(students, schedule[["student_id", "teacher_id"]], on="student_id")\<close>: the
  training examples, subjects of the student and teacher id of the assignment.
\<close>

definition training_examples :: "student list \<Rightarrow> assignment list \<Rightarrow> (string list \<times> int) list" where
  "training_examples students schedule =
     concat (map (\<lambda>s. map (\<lambda>a. (s_subjects s, a_teacher_id a))
                         (filter (\<lambda>a. a_student_id a = student_id s) schedule)) students)"

text \<open>
  The classifier is a library object (\<^verbatim>\<open>MultiLabelBinarizer\<close> and
  \<^verbatim>\<open>RandomForestClassifier\<close>): \<open>fit\<close> stands for training followed by
  \<^verbatim>\<open>clf.predict(mlb.transform([subjects]))[0]\<close> and is a parameter. With an empty
  schedule, \<^verbatim>\<open>pd.DataFrame([])\<close> has no columns and the selection
  \<^verbatim>\<open>schedule[["student_id", "teacher_id"]]\<close> raises \<^verbatim>\<open>KeyError\<close>.
\<close>

type_synonym recommender = "string list \<Rightarrow> int"

definition train_teacher_recommender ::
  "((string list \<times> int) list \<Rightarrow> recommender) \<Rightarrow> assignment list \<Rightarrow> student list \<Rightarrow> error + recommender" where
  "train_teacher_recommender fit schedule students =
     (if schedule = [] then Inl KeyError else Inr (fit (training_examples students schedule)))"

text \<open>
  \<^verbatim>\<open>teachers[teachers.apply(lambda t: subject_overlap(...), axis=1)]\<close>: the predicate
  runs on every row, then the rows where it holds are kept, in input order.
\<close>

fun candidate_teachers :: "student \<Rightarrow> teacher list \<Rightarrow> error + teacher list" where
  "candidate_teachers s [] = Inr []"
| "candidate_teachers s (t # rest) =
     (case subject_overlap (as_list (s_subjects s)) (as_list (t_subjects t)) of
        Inl e \<Rightarrow> Inl e
      | Inr ov \<Rightarrow>
          (case candidate_teachers s rest of
             Inl e \<Rightarrow> Inl e
           | Inr cs \<Rightarrow> Inr (if ov then t # cs else cs)))"

text \<open>
  The loop \<^verbatim>\<open>for _, teacher in candidate_teachers.iterrows()\<close> over the rows with
  their \<^verbatim>\<open>weight\<close> column, up to its \<^verbatim>\<open>break\<close>.
\<close>

fun scan_candidates ::
  "usage \<Rightarrow> student \<Rightarrow> (teacher \<times> rat) list \<Rightarrow> error + (teacher \<times> string \<times> int) option" where
  "scan_candidates ts s [] = Inr None"
| "scan_candidates ts s ((t, w) # rest) =
     (case available_time_overlap (as_list (preferred_time_slots s))
             (as_list (available_time_slots t)) of
        Inl e \<Rightarrow> Inl e
      | Inr common_slots \<Rightarrow>
          (case first_free_slot ts (teacher_id t) (max_students_per_slot t) common_slots of
             Inl e \<Rightarrow> Inl e
           | Inr None \<Rightarrow> scan_candidates ts s rest
           | Inr (Some (slot, c)) \<Rightarrow> Inr (Some (t, slot, c))))"

text \<open>
  \<^verbatim>\<open>sort_values("weight", ascending=False)\<close> is a library call with the default sort
  kind (\<^verbatim>\<open>quicksort\<close>); it is the parameter \<open>sort_values\<close>, and \<open>sorts_descending\<close>
  is what the library promises of it: the rows are permuted and end in descending order
  of weight.
\<close>

type_synonym sorter = "(teacher \<times> rat) list \<Rightarrow> (teacher \<times> rat) list"

definition with_weight :: "(int \<Rightarrow> rat) \<Rightarrow> teacher list \<Rightarrow> (teacher \<times> rat) list" where
  "with_weight weights cands = map (\<lambda>t. (t, weights (teacher_id t))) cands"

definition greedy_attempt ::
  "sorter \<Rightarrow> (int \<Rightarrow> rat) \<Rightarrow> usage \<Rightarrow> student \<Rightarrow> teacher list \<Rightarrow> error + (teacher \<times> string \<times> int) option" where
  "greedy_attempt sort_values weights ts s teachers =
     (case candidate_teachers s teachers of
        Inl e \<Rightarrow> Inl e
      | Inr cands \<Rightarrow> scan_candidates ts s (sort_values (with_weight weights cands)))"

text \<open>
  The fallback: \<^verbatim>\<open>teachers[teachers["teacher_id"] == predicted_teacher].iloc[0]\<close> raises
  \<^verbatim>\<open>IndexError\<close> when no row has the predicted id; the slot search is the same loop,
  on the usage entry of the predicted id and the capacity of that first row.
\<close>

definition fallback_attempt ::
  "recommender \<Rightarrow> usage \<Rightarrow> student \<Rightarrow> teacher list \<Rightarrow> error + (int \<times> string \<times> int) option" where
  "fallback_attempt predict ts s teachers =
     (let predicted_teacher = predict (s_subjects s) in
      case filter (\<lambda>t. teacher_id t = predicted_teacher) teachers of
        [] \<Rightarrow> Inl IndexError
      | teacher_row # others \<Rightarrow>
          (case available_time_overlap (as_list (preferred_time_slots s))
                  (as_list (available_time_slots teacher_row)) of
             Inl e \<Rightarrow> Inl e
           | Inr common_slots \<Rightarrow>
               (case first_free_slot ts predicted_teacher (max_students_per_slot teacher_row)
                       common_slots of
                  Inl e \<Rightarrow> Inl e
                | Inr None \<Rightarrow> Inr None
                | Inr (Some (slot, c)) \<Rightarrow> Inr (Some (predicted_teacher, slot, c)))))"

fun feedback_loop ::
  "sorter \<Rightarrow> (int \<Rightarrow> rat) \<Rightarrow> recommender \<Rightarrow> teacher list \<Rightarrow> usage \<Rightarrow> assignment list \<Rightarrow>
   student list \<Rightarrow> error + (usage \<times> assignment list)" where
  "feedback_loop sort_values weights predict teachers ts schedule [] = Inr (ts, schedule)"
| "feedback_loop sort_values weights predict teachers ts schedule (s # rest) =
     (case greedy_attempt sort_values weights ts s teachers of
        Inl e \<Rightarrow> Inl e
      | Inr (Some (t, slot, c)) \<Rightarrow>
          feedback_loop sort_values weights predict teachers (increment ts (teacher_id t) slot)
            (schedule @ [assign_student_to_slot (student_id s) (teacher_id t) slot c]) rest
      | Inr None \<Rightarrow>
          (case fallback_attempt predict ts s teachers of
             Inl e \<Rightarrow> Inl e
           | Inr (Some (tid, slot, c)) \<Rightarrow>
               feedback_loop sort_values weights predict teachers (increment ts tid slot)
                 (schedule @ [assign_student_to_slot (student_id s) tid slot c]) rest
           | Inr None \<Rightarrow>
               feedback_loop sort_values weights predict teachers ts schedule rest))"

definition match_with_feedback_loop ::
  "sorter \<Rightarrow> ((string list \<times> int) list \<Rightarrow> recommender) \<Rightarrow> student list \<Rightarrow> teacher list \<Rightarrow>
   feedback list option \<Rightarrow> error + assignment list" where
  "match_with_feedback_loop sort_values fit students teachers feedback_df =
     (case match_students_to_teachers students teachers of
        Inl e \<Rightarrow> Inl e
      | Inr initial_schedule \<Rightarrow>
          (case train_teacher_recommender fit initial_schedule students of
             Inl e \<Rightarrow> Inl e
           | Inr predict \<Rightarrow>
               (case feedback_loop sort_values (teacher_weights feedback_df) predict teachers
                       (teacher_slots_init teachers) [] students of
                  Inl e \<Rightarrow> Inl e
                | Inr (ts, final_schedule) \<Rightarrow> Inr final_schedule)))"

section \<open>Specification vocabulary\<close>

definition sorts_descending :: "sorter \<Rightarrow> bool" where
  "sorts_descending sort_values =
     (\<forall>rows. mset (sort_values rows) = mset rows \<and>
             sorted_wrt (\<lambda>a b. snd b \<le> snd a) (sort_values rows))"

text \<open>
  The sort as the specification words it: stable, descending by weight, rows of equal
  weight in input order.
\<close>

definition stable_sort_descending :: sorter where
  "stable_sort_descending rows = rev (sort_key snd (rev rows))"

text \<open>The occupancy of a (teacher id, slot) pair in a schedule.\<close>

definition count_pair :: "assignment list \<Rightarrow> int \<Rightarrow> string \<Rightarrow> nat" where
  "count_pair schedule tid slot =
     length (filter (\<lambda>a. a_teacher_id a = tid \<and> time_slot a = slot) schedule)"

text \<open>
  The usage table agrees with a schedule: every entry it holds is the number of
  assignments of the schedule on that pair.
\<close>

definition usage_counts :: "usage \<Rightarrow> assignment list \<Rightarrow> bool" where
  "usage_counts ts schedule =
     (\<forall>tid slot c. lookup ts tid slot = Some c \<longrightarrow> c = int (count_pair schedule tid slot))"

text \<open>A property of every assignment of a schedule, relative to the assignments before it.\<close>

definition each_commit :: "(assignment list \<Rightarrow> assignment \<Rightarrow> bool) \<Rightarrow> assignment list \<Rightarrow> bool" where
  "each_commit Q schedule = (\<forall>i<length schedule. Q (take i schedule) (schedule ! i))"

definition subjects_overlap :: "student \<Rightarrow> teacher \<Rightarrow> bool" where
  "subjects_overlap s t = (set (s_subjects s) \<inter> set (t_subjects t) \<noteq> {})"

definition common_slots :: "student \<Rightarrow> teacher \<Rightarrow> string list" where
  "common_slots s t =
     sort (remdups (filter (\<lambda>x. x \<in> set (available_time_slots t)) (preferred_time_slots s)))"

text \<open>Occupancy below capacity, in the usage table and in a schedule.\<close>

definition slot_free :: "usage \<Rightarrow> teacher \<Rightarrow> string \<Rightarrow> int \<Rightarrow> bool" where
  "slot_free ts t slot c = (lookup ts (teacher_id t) slot = Some c \<and> c < max_students_per_slot t)"

definition slot_full :: "usage \<Rightarrow> teacher \<Rightarrow> string \<Rightarrow> bool" where
  "slot_full ts t slot =
     (case lookup ts (teacher_id t) slot of None \<Rightarrow> False | Some c \<Rightarrow> \<not> c < max_students_per_slot t)"

definition free_in :: "assignment list \<Rightarrow> teacher \<Rightarrow> string \<Rightarrow> bool" where
  "free_in schedule t slot =
     (int (count_pair schedule (teacher_id t) slot) < max_students_per_slot t)"

text \<open>
  What a successful teacher scan of the baseline matcher found, in terms of the usage
  table it read.
\<close>

definition scan_found :: "usage \<Rightarrow> student \<Rightarrow> teacher list \<Rightarrow> teacher \<Rightarrow> string \<Rightarrow> int \<Rightarrow> bool" where
  "scan_found ts s teachers t slot c =
     (\<exists>skipped later early late.
        teachers = skipped @ t # later \<and>
        subjects_overlap s t \<and>
        common_slots s t = early @ slot # late \<and>
        (\<forall>x\<in>set early. slot_full ts t x) \<and>
        slot_free ts t slot c \<and>
        (\<forall>t'\<in>set skipped. subjects_overlap s t' \<longrightarrow> (\<forall>x\<in>set (common_slots s t'). slot_full ts t' x)))"

text \<open>The same for the scan of the weighted candidate rows of the feedback-loop matcher.\<close>

definition candidates_found ::
  "usage \<Rightarrow> student \<Rightarrow> (teacher \<times> rat) list \<Rightarrow> teacher \<Rightarrow> string \<Rightarrow> int \<Rightarrow> bool" where
  "candidates_found ts s rows t slot c =
     (\<exists>skipped w later early late.
        rows = skipped @ (t, w) # later \<and>
        common_slots s t = early @ slot # late \<and>
        (\<forall>x\<in>set early. slot_full ts t x) \<and>
        slot_free ts t slot c \<and>
        (\<forall>r\<in>set skipped. \<forall>x\<in>set (common_slots s (fst r)). slot_full ts (fst r) x))"

text \<open>
  What every commit of either matcher satisfies: the assignment is built from a student
  row and a teacher row, on a slot both have, while that pair is below the teacher's
  capacity, with the lesson type of the occupancy so far.
\<close>

definition commit_ok :: "teacher list \<Rightarrow> student list \<Rightarrow> assignment list \<Rightarrow> assignment \<Rightarrow> bool" where
  "commit_ok teachers students before a =
     (\<exists>s\<in>set students. \<exists>t\<in>set teachers.
        time_slot a \<in> set (preferred_time_slots s) \<inter> set (available_time_slots t) \<and>
        free_in before t (time_slot a) \<and>
        a = assign_student_to_slot (student_id s) (teacher_id t) (time_slot a)
              (int (count_pair before (teacher_id t) (time_slot a))))"

text \<open>
  What every commit of the baseline matcher satisfies: the teacher is the first row, in
  input order, that shares a subject with the student and has a common slot below
  capacity, and the slot is the first such slot of the sorted common slots.
\<close>

definition first_fit :: "teacher list \<Rightarrow> student \<Rightarrow> assignment list \<Rightarrow> assignment \<Rightarrow> bool" where
  "first_fit teachers s before a =
     (\<exists>skipped t later early late.
        teachers = skipped @ t # later \<and>
        subjects_overlap s t \<and>
        common_slots s t = early @ time_slot a # late \<and>
        (\<forall>x\<in>set early. \<not> free_in before t x) \<and>
        free_in before t (time_slot a) \<and>
        a = assign_student_to_slot (student_id s) (teacher_id t) (time_slot a)
              (int (count_pair before (teacher_id t) (time_slot a))) \<and>
        (\<forall>t'\<in>set skipped. subjects_overlap s t' \<longrightarrow>
           (\<forall>x\<in>set (common_slots s t'). \<not> free_in before t' x)))"

definition baseline_commit :: "teacher list \<Rightarrow> student list \<Rightarrow> assignment list \<Rightarrow> assignment \<Rightarrow> bool" where
  "baseline_commit teachers students before a = (\<exists>s\<in>set students. first_fit teachers s before a)"

text \<open>The usage table has an entry for every available slot of every teacher row.\<close>

definition usage_covers :: "usage \<Rightarrow> teacher list \<Rightarrow> bool" where
  "usage_covers ts teachers =
     (\<forall>t\<in>set teachers. \<forall>slot\<in>set (available_time_slots t).
        lookup ts (teacher_id t) slot \<noteq> None)"

text \<open>
  An assignment of a student row to a teacher row on a slot both have, the two sharing a
  subject; and the same without the subjects, for some student row.
\<close>

definition greedy_sound :: "teacher list \<Rightarrow> student \<Rightarrow> assignment \<Rightarrow> bool" where
  "greedy_sound teachers s a =
     (\<exists>t\<in>set teachers.
        a_student_id a = student_id s \<and> a_teacher_id a = teacher_id t \<and>
        time_slot a \<in> set (preferred_time_slots s) \<inter> set (available_time_slots t) \<and>
        set (s_subjects s) \<inter> set (t_subjects t) \<noteq> {})"

definition slot_sound :: "teacher list \<Rightarrow> student list \<Rightarrow> assignment \<Rightarrow> bool" where
  "slot_sound teachers students a =
     (\<exists>s\<in>set students. \<exists>t\<in>set teachers.
        a_student_id a = student_id s \<and> a_teacher_id a = teacher_id t \<and>
        time_slot a \<in> set (preferred_time_slots s) \<inter> set (available_time_slots t))"

text \<open>
  The baseline schedule as the first-fit rule words it, in terms of the schedule so far
  only: a teacher can take a student when the two share a subject and some common slot
  is below capacity; the choice is the first such teacher in input order and the first
  such slot of the sorted common slots; a student no teacher can take gets nothing.
\<close>

definition can_take :: "assignment list \<Rightarrow> student \<Rightarrow> teacher \<Rightarrow> bool" where
  "can_take before s t =
     (subjects_overlap s t \<and> list_ex (free_in before t) (common_slots s t))"

definition first_fit_choice ::
  "teacher list \<Rightarrow> assignment list \<Rightarrow> student \<Rightarrow> (teacher \<times> string) option" where
  "first_fit_choice teachers before s =
     (case find (can_take before s) teachers of
        None \<Rightarrow> None
      | Some t \<Rightarrow>
          (case find (free_in before t) (common_slots s t) of
             None \<Rightarrow> None
           | Some slot \<Rightarrow> Some (t, slot)))"

fun first_fit_schedule :: "teacher list \<Rightarrow> assignment list \<Rightarrow> student list \<Rightarrow> assignment list" where
  "first_fit_schedule teachers before [] = before"
| "first_fit_schedule teachers before (s # rest) =
     (case first_fit_choice teachers before s of
        None \<Rightarrow> first_fit_schedule teachers before rest
      | Some (t, slot) \<Rightarrow>
          first_fit_schedule teachers
            (before @ [assign_student_to_slot (student_id s) (teacher_id t) slot
                         (int (count_pair before (teacher_id t) slot))]) rest)"


text \<open>The lesson type of an assignment is that of the occupancy of its pair before it.\<close>

definition lesson_type_ok :: "assignment list \<Rightarrow> assignment \<Rightarrow> bool" where
  "lesson_type_ok before a =
     (lesson_type a =
        (if count_pair before (a_teacher_id a) (time_slot a) = 0 then ''1:1'' else ''group''))"

text \<open>The inputs of the specification's scenarios A to D.\<close>

definition S1 :: student where
  "S1 = \<lparr>student_id = 1, s_subjects = [''Math''], preferred_time_slots = [''Mon9'']\<rparr>"

definition S2 :: student where
  "S2 = \<lparr>student_id = 2, s_subjects = [''Math''], preferred_time_slots = [''Mon9'']\<rparr>"

definition S3 :: student where
  "S3 = \<lparr>student_id = 3, s_subjects = [''Math''], preferred_time_slots = [''Mon9'']\<rparr>"

definition T1 :: teacher where
  "T1 = \<lparr>teacher_id = 1, t_subjects = [''Math''], available_time_slots = [''Mon9''],
          max_students_per_slot = 2\<rparr>"

definition T2 :: teacher where
  "T2 = \<lparr>teacher_id = 2, t_subjects = [''Math''], available_time_slots = [''Mon9''],
          max_students_per_slot = 5\<rparr>"

definition S4 :: student where
  "S4 = \<lparr>student_id = 4, s_subjects = [''Physics''], preferred_time_slots = [''Mon9'']\<rparr>"

text \<open>The baseline schedule of the students S1, S2, S3 with the teachers T1, T2.\<close>

definition example_schedule :: "assignment list" where
  "example_schedule =
     [\<lparr>a_student_id = 1, a_teacher_id = 1, time_slot = ''Mon9'', lesson_type = ''1:1''\<rparr>,
      \<lparr>a_student_id = 2, a_teacher_id = 1, time_slot = ''Mon9'', lesson_type = ''group''\<rparr>,
      \<lparr>a_student_id = 3, a_teacher_id = 2, time_slot = ''Mon9'', lesson_type = ''1:1''\<rparr>]"

text \<open>The first two assignments: the schedule when T1 is the only teacher.\<close>

definition example_schedule_T1 :: "assignment list" where
  "example_schedule_T1 = take 2 example_schedule"

text \<open>A recommender that predicts teacher 1.\<close>

definition fit_first :: "(string list \<times> int) list \<Rightarrow> recommender" where
  "fit_first examples subjects = 1"


text \<open>The schedule of the students S1, S4 with the teacher T1: S4 is placed by the fallback.\<close>

definition example_fallback_schedule :: "assignment list" where
  "example_fallback_schedule =
     [\<lparr>a_student_id = 1, a_teacher_id = 1, time_slot = ''Mon9'', lesson_type = ''1:1''\<rparr>,
      \<lparr>a_student_id = 4, a_teacher_id = 1, time_slot = ''Mon9'', lesson_type = ''group''\<rparr>]"

section \<open>Overlap utilities on the rows' columns\<close>

lemma str_values_PStr: "str_values (map PStr xs) = xs"
  by (induction xs) simp_all

lemma all_str_PStr: "list_all isinstance_str (map PStr xs)"
  by (induction xs) simp_all

lemma subject_overlap_rows:
  "subject_overlap (as_list (s_subjects s)) (as_list (t_subjects t)) = Inr (subjects_overlap s t)"
  by (auto simp: subject_overlap_def as_list_def subjects_overlap_def all_str_PStr list_ex_iff)

lemma available_time_overlap_rows:
  "available_time_overlap (as_list (preferred_time_slots s)) (as_list (available_time_slots t))
     = Inr (common_slots s t)"
  by (simp add: available_time_overlap_def as_list_def common_slots_def all_str_PStr str_values_PStr)

lemma set_common_slots:
  "set (common_slots s t) = set (preferred_time_slots s) \<inter> set (available_time_slots t)"
  by (auto simp: common_slots_def)

section \<open>The slot search and the teacher scan of the baseline matcher\<close>

lemma first_free_slot_Some:
  "first_free_slot ts (teacher_id t) (max_students_per_slot t) slots = Inr (Some (slot, c)) \<Longrightarrow>
     \<exists>early late. slots = early @ slot # late \<and> (\<forall>x\<in>set early. slot_full ts t x) \<and> slot_free ts t slot c"
proof (induction slots)
  case Nil
  then show ?case by simp
next
  case (Cons x slots)
  show ?case
  proof (cases "lookup ts (teacher_id t) x")
    case None
    with Cons.prems show ?thesis by simp
  next
    case (Some cx)
    show ?thesis
    proof (cases "cx < max_students_per_slot t")
      case True
      with Some Cons.prems have "x = slot" "cx = c" by simp_all
      with Some True have "x # slots = [] @ slot # slots \<and> (\<forall>y\<in>set []. slot_full ts t y) \<and> slot_free ts t slot c"
        by (simp add: slot_free_def)
      then show ?thesis by blast
    next
      case False
      with Some Cons.prems have "first_free_slot ts (teacher_id t) (max_students_per_slot t) slots = Inr (Some (slot, c))"
        by simp
      from Cons.IH[OF this] obtain early late where
        e: "slots = early @ slot # late" "\<forall>y\<in>set early. slot_full ts t y" "slot_free ts t slot c"
        by blast
      from Some False have "slot_full ts t x" by (simp add: slot_full_def)
      with e have "x # slots = (x # early) @ slot # late \<and> (\<forall>y\<in>set (x # early). slot_full ts t y) \<and> slot_free ts t slot c"
        by simp
      then show ?thesis by blast
    qed
  qed
qed

lemma first_free_slot_None:
  "first_free_slot ts (teacher_id t) (max_students_per_slot t) slots = Inr None \<Longrightarrow>
     \<forall>x\<in>set slots. slot_full ts t x"
  by (induction slots) (auto simp: slot_full_def split: option.splits if_splits)

lemma scan_teachers_Cons:
  "scan_teachers ts s (t # rest) =
     (if subjects_overlap s t then
        (case first_free_slot ts (teacher_id t) (max_students_per_slot t) (common_slots s t) of
           Inl e \<Rightarrow> Inl e
         | Inr None \<Rightarrow> scan_teachers ts s rest
         | Inr (Some (slot, c)) \<Rightarrow> Inr (Some (t, slot, c)))
      else scan_teachers ts s rest)"
  by (simp add: subject_overlap_rows available_time_overlap_rows)


declare scan_teachers.simps(2) [simp del]

lemma scan_found_here:
  assumes "subjects_overlap s t" "common_slots s t = early @ slot # late"
    "\<forall>x\<in>set early. slot_full ts t x" "slot_free ts t slot c"
  shows "scan_found ts s (t # rest) t slot c"
proof -
  have "t # rest = [] @ t # rest" by simp
  with assms show ?thesis unfolding scan_found_def
    by (metis empty_iff list.set(1))
qed

lemma scan_found_later:
  assumes "scan_found ts s rest t slot c"
    "subjects_overlap s t0 \<longrightarrow> (\<forall>x\<in>set (common_slots s t0). slot_full ts t0 x)"
  shows "scan_found ts s (t0 # rest) t slot c"
proof -
  from assms(1) obtain skipped later early late where
    h: "rest = skipped @ t # later" "subjects_overlap s t" "common_slots s t = early @ slot # late"
       "\<forall>x\<in>set early. slot_full ts t x" "slot_free ts t slot c"
       "\<forall>t'\<in>set skipped. subjects_overlap s t' \<longrightarrow> (\<forall>x\<in>set (common_slots s t'). slot_full ts t' x)"
    unfolding scan_found_def by blast
  have "t0 # rest = (t0 # skipped) @ t # later" using h(1) by simp
  moreover have "\<forall>t'\<in>set (t0 # skipped). subjects_overlap s t' \<longrightarrow> (\<forall>x\<in>set (common_slots s t'). slot_full ts t' x)"
    using h(6) assms(2) by simp
  ultimately show ?thesis unfolding scan_found_def using h(2-5) by blast
qed

lemma scan_teachers_Some:
  "scan_teachers ts s teachers = Inr (Some (t, slot, c)) \<Longrightarrow> scan_found ts s teachers t slot c"
proof (induction teachers)
  case Nil
  then show ?case by simp
next
  case (Cons t0 rest)
  show ?case
  proof (cases "subjects_overlap s t0")
    case False
    with Cons.prems have "scan_teachers ts s rest = Inr (Some (t, slot, c))"
      by (simp add: scan_teachers_Cons)
    from Cons.IH[OF this] False show ?thesis by (simp add: scan_found_later)
  next
    case True
    show ?thesis
    proof (cases "first_free_slot ts (teacher_id t0) (max_students_per_slot t0) (common_slots s t0)")
      case (Inl e)
      with True Cons.prems show ?thesis by (simp add: scan_teachers_Cons)
    next
      case (Inr r)
      show ?thesis
      proof (cases r)
        case None
        with Inr True Cons.prems have "scan_teachers ts s rest = Inr (Some (t, slot, c))"
          by (simp add: scan_teachers_Cons)
        from Cons.IH[OF this] first_free_slot_None[of ts t0 "common_slots s t0"] Inr None
        show ?thesis by (simp add: scan_found_later)
      next
        case (Some p)
        with Inr True Cons.prems have p: "p = (slot, c)" "t0 = t"
          by (auto simp: scan_teachers_Cons split: prod.splits)
        with Inr Some first_free_slot_Some[of ts t "common_slots s t" slot c]
        obtain early late where "common_slots s t = early @ slot # late"
          "\<forall>x\<in>set early. slot_full ts t x" "slot_free ts t slot c"
          by auto
        with True p show ?thesis by (simp add: scan_found_here)
      qed
    qed
  qed
qed

section \<open>The usage table counts the schedule\<close>

lemma each_commit_Nil: "each_commit Q []"
  by (simp add: each_commit_def)

lemma each_commit_snoc: "each_commit Q (xs @ [a]) \<longleftrightarrow> each_commit Q xs \<and> Q xs a"
proof
  assume h: "each_commit Q (xs @ [a])"
  have "each_commit Q xs" unfolding each_commit_def
  proof (intro allI impI)
    fix i assume "i < length xs"
    with h have "Q (take i (xs @ [a])) ((xs @ [a]) ! i)" by (simp add: each_commit_def)
    with \<open>i < length xs\<close> show "Q (take i xs) (xs ! i)" by (simp add: nth_append)
  qed
  moreover from h have "length xs < length (xs @ [a]) \<longrightarrow>
      Q (take (length xs) (xs @ [a])) ((xs @ [a]) ! length xs)"
    unfolding each_commit_def by (rule spec)
  ultimately show "each_commit Q xs \<and> Q xs a" by simp
next
  assume h: "each_commit Q xs \<and> Q xs a"
  show "each_commit Q (xs @ [a])" unfolding each_commit_def
  proof (intro allI impI)
    fix i assume "i < length (xs @ [a])"
    then consider "i < length xs" | "i = length xs" by fastforce
    then show "Q (take i (xs @ [a])) ((xs @ [a]) ! i)"
    proof cases
      case 1
      with h show ?thesis by (simp add: each_commit_def nth_append)
    next
      case 2
      with h show ?thesis by simp
    qed
  qed
qed

lemma count_pair_snoc:
  "count_pair (xs @ [a]) tid slot =
     count_pair xs tid slot + (if a_teacher_id a = tid \<and> time_slot a = slot then 1 else 0)"
  by (simp add: count_pair_def)

lemma lookup_increment:
  "lookup ts tid slot = Some c \<Longrightarrow>
   lookup (increment ts tid slot) tid' slot' =
     (if tid' = tid \<and> slot' = slot then Some (c + 1) else lookup ts tid' slot')"
  by (auto simp: lookup_def increment_def split: option.splits)

lemma assign_fields [simp]:
  "a_student_id (assign_student_to_slot sid tid slot c) = sid"
  "a_teacher_id (assign_student_to_slot sid tid slot c) = tid"
  "time_slot (assign_student_to_slot sid tid slot c) = slot"
  by (simp_all add: assign_student_to_slot_def)

lemma usage_counts_commit:
  assumes "usage_counts ts schedule" "lookup ts tid slot = Some c"
  shows "usage_counts (increment ts tid slot)
           (schedule @ [assign_student_to_slot sid tid slot c'])"
  using assms unfolding usage_counts_def
  by (auto simp: lookup_increment count_pair_snoc)

lemma lookup_init_zero:
  "lookup (teacher_slots_init teachers) tid slot = Some c \<Longrightarrow> c = 0"
proof (induction teachers arbitrary: c rule: rev_induct)
  case Nil
  then show ?case by (simp add: teacher_slots_init_def lookup_def)
next
  case (snoc t teachers)
  show ?case
  proof (cases "tid = teacher_id t")
    case True
    with snoc.prems have "map_of (map (\<lambda>slot. (slot, 0::int)) (available_time_slots t)) slot = Some c"
      by (simp add: teacher_slots_init_def lookup_def)
    then have "(slot, c) \<in> set (map (\<lambda>slot. (slot, 0::int)) (available_time_slots t))"
      by (rule map_of_SomeD)
    then show ?thesis by auto
  next
    case False
    with snoc.prems have "lookup (teacher_slots_init teachers) tid slot = Some c"
      by (simp add: teacher_slots_init_def lookup_def)
    then show ?thesis by (rule snoc.IH)
  qed
qed

lemma usage_counts_init: "usage_counts (teacher_slots_init teachers) []"
  unfolding usage_counts_def using lookup_init_zero by (auto simp: count_pair_def)


lemma slot_full_not_free_in:
  "usage_counts ts before \<Longrightarrow> slot_full ts t x \<Longrightarrow> \<not> free_in before t x"
  by (auto simp: usage_counts_def slot_full_def free_in_def split: option.splits)

lemma slot_free_free_in:
  "usage_counts ts before \<Longrightarrow> slot_free ts t slot c \<Longrightarrow>
     c = int (count_pair before (teacher_id t) slot) \<and> free_in before t slot"
  by (auto simp: usage_counts_def slot_free_def free_in_def)

lemma scan_found_first_fit:
  assumes "usage_counts ts before" "scan_found ts s teachers t slot c"
  shows "first_fit teachers s before (assign_student_to_slot (student_id s) (teacher_id t) slot c)"
proof -
  from assms(2) obtain skipped later early late where
    h: "teachers = skipped @ t # later" "subjects_overlap s t" "common_slots s t = early @ slot # late"
       "\<forall>x\<in>set early. slot_full ts t x" "slot_free ts t slot c"
       "\<forall>t'\<in>set skipped. subjects_overlap s t' \<longrightarrow> (\<forall>x\<in>set (common_slots s t'). slot_full ts t' x)"
    unfolding scan_found_def by blast
  from slot_free_free_in[OF assms(1) h(5)]
  have c: "c = int (count_pair before (teacher_id t) slot)" and f: "free_in before t slot"
    by simp_all
  have e: "\<forall>x\<in>set early. \<not> free_in before t x"
    using h(4) slot_full_not_free_in[OF assms(1)] by blast
  have k: "\<forall>t'\<in>set skipped. subjects_overlap s t' \<longrightarrow> (\<forall>x\<in>set (common_slots s t'). \<not> free_in before t' x)"
    using h(6) slot_full_not_free_in[OF assms(1)] by blast
  show ?thesis unfolding first_fit_def
    apply (rule exI[of _ skipped], rule exI[of _ t], rule exI[of _ later],
           rule exI[of _ early], rule exI[of _ late])
    using h(1,2,3) c f e k by simp
qed

lemma scan_found_lookup:
  "scan_found ts s teachers t slot c \<Longrightarrow> lookup ts (teacher_id t) slot = Some c"
  by (auto simp: scan_found_def slot_free_def)

lemma baseline_loop_each:
  assumes "baseline_loop teachers ts acc studs = Inr (ts', sched)"
    and "usage_counts ts acc" and "each_commit Q acc"
    and "\<And>ts before s t slot c.
           s \<in> set studs \<Longrightarrow> usage_counts ts before \<Longrightarrow> scan_found ts s teachers t slot c \<Longrightarrow>
           Q before (assign_student_to_slot (student_id s) (teacher_id t) slot c)"
  shows "usage_counts ts' sched \<and> each_commit Q sched"
  using assms
proof (induction studs arbitrary: ts acc)
  case Nil
  then show ?case by simp
next
  case (Cons s rest)
  have step: "\<And>ts before s t slot c.
           s \<in> set rest \<Longrightarrow> usage_counts ts before \<Longrightarrow> scan_found ts s teachers t slot c \<Longrightarrow>
           Q before (assign_student_to_slot (student_id s) (teacher_id t) slot c)"
    using Cons.prems(4) by simp
  show ?case
  proof (cases "scan_teachers ts s teachers")
    case (Inl e)
    with Cons.prems(1) show ?thesis by simp
  next
    case (Inr r)
    show ?thesis
    proof (cases r)
      case None
      with Inr Cons.prems(1) have "baseline_loop teachers ts acc rest = Inr (ts', sched)" by simp
      from Cons.IH[OF this Cons.prems(2,3) step] show ?thesis .
    next
      case (Some p)
      obtain t slot c where p: "p = (t, slot, c)" by (cases p) auto
      let ?a = "assign_student_to_slot (student_id s) (teacher_id t) slot c"
      from Inr Some p have found: "scan_found ts s teachers t slot c"
        by (simp add: scan_teachers_Some)
      from Inr Some p Cons.prems(1)
      have run: "baseline_loop teachers (increment ts (teacher_id t) slot) (acc @ [?a]) rest = Inr (ts', sched)"
        by simp
      have u: "usage_counts (increment ts (teacher_id t) slot) (acc @ [?a])"
        using Cons.prems(2) scan_found_lookup[OF found] by (rule usage_counts_commit)
      have "Q acc ?a" using Cons.prems(4)[OF _ Cons.prems(2) found] by simp
      with Cons.prems(3) have e: "each_commit Q (acc @ [?a])" by (simp add: each_commit_snoc)
      from Cons.IH[OF run u e step] show ?thesis .
    qed
  qed
qed

lemma baseline_each_first_fit:
  assumes "match_students_to_teachers students teachers = Inr sched"
  shows "each_commit (baseline_commit teachers students) sched"
proof -
  from assms obtain ts' where
    run: "baseline_loop teachers (teacher_slots_init teachers) [] students = Inr (ts', sched)"
    by (auto simp: match_students_to_teachers_def split: sum.splits)
  have "usage_counts ts' sched \<and> each_commit (baseline_commit teachers students) sched"
  proof (rule baseline_loop_each[OF run usage_counts_init each_commit_Nil])
    fix ts before s t slot c
    assume "s \<in> set students" "usage_counts ts before" "scan_found ts s teachers t slot c"
    then show "baseline_commit teachers students before
                 (assign_student_to_slot (student_id s) (teacher_id t) slot c)"
      unfolding baseline_commit_def using scan_found_first_fit by blast
  qed
  then show ?thesis by simp
qed


section \<open>The scans of the feedback-loop matcher\<close>

lemma candidate_teachers_filter:
  "candidate_teachers s teachers = Inr (filter (subjects_overlap s) teachers)"
  by (induction teachers) (simp_all add: subject_overlap_rows)

lemma scan_candidates_Cons:
  "scan_candidates ts s ((t, w) # rest) =
     (case first_free_slot ts (teacher_id t) (max_students_per_slot t) (common_slots s t) of
        Inl e \<Rightarrow> Inl e
      | Inr None \<Rightarrow> scan_candidates ts s rest
      | Inr (Some (slot, c)) \<Rightarrow> Inr (Some (t, slot, c)))"
  by (simp add: available_time_overlap_rows)

declare scan_candidates.simps(2) [simp del]

lemma candidates_found_here:
  assumes "common_slots s t = early @ slot # late"
    "\<forall>x\<in>set early. slot_full ts t x" "slot_free ts t slot c"
  shows "candidates_found ts s ((t, w) # rest) t slot c"
proof -
  have "(t, w) # rest = [] @ (t, w) # rest" by simp
  with assms show ?thesis unfolding candidates_found_def
    by (metis empty_iff list.set(1))
qed

lemma candidates_found_later:
  assumes "candidates_found ts s rest t slot c"
    "\<forall>x\<in>set (common_slots s (fst r0)). slot_full ts (fst r0) x"
  shows "candidates_found ts s (r0 # rest) t slot c"
proof -
  from assms(1) obtain skipped w later early late where
    h: "rest = skipped @ (t, w) # later" "common_slots s t = early @ slot # late"
       "\<forall>x\<in>set early. slot_full ts t x" "slot_free ts t slot c"
       "\<forall>r\<in>set skipped. \<forall>x\<in>set (common_slots s (fst r)). slot_full ts (fst r) x"
    unfolding candidates_found_def by blast
  have "r0 # rest = (r0 # skipped) @ (t, w) # later" using h(1) by simp
  moreover have "\<forall>r\<in>set (r0 # skipped). \<forall>x\<in>set (common_slots s (fst r)). slot_full ts (fst r) x"
    using h(5) assms(2) by simp
  ultimately show ?thesis unfolding candidates_found_def using h(2-4) by blast
qed

lemma scan_candidates_Some:
  "scan_candidates ts s rows = Inr (Some (t, slot, c)) \<Longrightarrow> candidates_found ts s rows t slot c"
proof (induction rows)
  case Nil
  then show ?case by simp
next
  case (Cons r0 rest)
  obtain t0 w0 where r0: "r0 = (t0, w0)" by (cases r0) auto
  show ?case
  proof (cases "first_free_slot ts (teacher_id t0) (max_students_per_slot t0) (common_slots s t0)")
    case (Inl e)
    with r0 Cons.prems show ?thesis by (simp add: scan_candidates_Cons)
  next
    case (Inr r)
    show ?thesis
    proof (cases r)
      case None
      with Inr r0 Cons.prems have "scan_candidates ts s rest = Inr (Some (t, slot, c))"
        by (simp add: scan_candidates_Cons)
      from Cons.IH[OF this] first_free_slot_None[of ts t0 "common_slots s t0"] Inr None r0
      show ?thesis by (simp add: candidates_found_later)
    next
      case (Some p)
      with Inr r0 Cons.prems have p: "p = (slot, c)" "t0 = t"
        by (auto simp: scan_candidates_Cons split: prod.splits)
      with Inr Some first_free_slot_Some[of ts t "common_slots s t" slot c]
      obtain early late where "common_slots s t = early @ slot # late"
        "\<forall>x\<in>set early. slot_full ts t x" "slot_free ts t slot c"
        by auto
      with r0 p show ?thesis by (simp add: candidates_found_here)
    qed
  qed
qed

lemma scan_candidates_None:
  "scan_candidates ts s rows = Inr None \<Longrightarrow>
     \<forall>r\<in>set rows. \<forall>x\<in>set (common_slots s (fst r)). slot_full ts (fst r) x"
proof (induction rows)
  case Nil
  then show ?case by simp
next
  case (Cons r0 rest)
  obtain t0 w0 where r0: "r0 = (t0, w0)" by (cases r0) auto
  from Cons.prems r0 have
    a: "first_free_slot ts (teacher_id t0) (max_students_per_slot t0) (common_slots s t0) = Inr None"
    and b: "scan_candidates ts s rest = Inr None"
    by (auto simp: scan_candidates_Cons split: sum.splits option.splits prod.splits)
  from first_free_slot_None[OF a] Cons.IH[OF b] r0 show ?case by simp
qed

lemma greedy_attempt_scan:
  "greedy_attempt srt w ts s teachers =
     scan_candidates ts s (srt (with_weight w (filter (subjects_overlap s) teachers)))"
  by (simp add: greedy_attempt_def candidate_teachers_filter)

lemma sorts_descending_set: "sorts_descending srt \<Longrightarrow> set (srt rows) = set rows"
  unfolding sorts_descending_def by (metis set_mset_mset)

lemma sorts_descending_sorted:
  "sorts_descending srt \<Longrightarrow> sorted_wrt (\<lambda>a b. snd b \<le> snd a) (srt rows)"
  unfolding sorts_descending_def by blast

lemma candidates_found_lookup:
  "candidates_found ts s rows t slot c \<Longrightarrow> lookup ts (teacher_id t) slot = Some c"
  by (auto simp: candidates_found_def slot_free_def)

lemma greedy_attempt_lookup:
  "greedy_attempt srt w ts s teachers = Inr (Some (t, slot, c)) \<Longrightarrow>
     lookup ts (teacher_id t) slot = Some c"
  using scan_candidates_Some[of ts s "srt (with_weight w (filter (subjects_overlap s) teachers))" t slot c]
  by (simp add: greedy_attempt_scan candidates_found_lookup)

lemma fallback_attempt_Some:
  assumes "fallback_attempt predict ts s teachers = Inr (Some (tid, slot, c))"
  shows "\<exists>teacher_row others early late.
           filter (\<lambda>t. teacher_id t = predict (s_subjects s)) teachers = teacher_row # others \<and>
           tid = predict (s_subjects s) \<and> teacher_id teacher_row = tid \<and> teacher_row \<in> set teachers \<and>
           common_slots s teacher_row = early @ slot # late \<and>
           (\<forall>x\<in>set early. slot_full ts teacher_row x) \<and>
           slot_free ts teacher_row slot c"
proof (cases "filter (\<lambda>t. teacher_id t = predict (s_subjects s)) teachers")
  case Nil
  with assms show ?thesis by (simp add: fallback_attempt_def)
next
  case (Cons teacher_row others)
  then have "teacher_row \<in> set (filter (\<lambda>t. teacher_id t = predict (s_subjects s)) teachers)"
    by simp
  then have row: "teacher_id teacher_row = predict (s_subjects s)" "teacher_row \<in> set teachers"
    by simp_all
  from assms Cons row have
    "first_free_slot ts (teacher_id teacher_row) (max_students_per_slot teacher_row)
        (common_slots s teacher_row) = Inr (Some (slot, c))" and tid: "tid = predict (s_subjects s)"
    by (auto simp: fallback_attempt_def Let_def available_time_overlap_rows
             split: sum.splits option.splits prod.splits)
  from first_free_slot_Some[OF this(1)] obtain early late where
    "common_slots s teacher_row = early @ slot # late"
    "\<forall>x\<in>set early. slot_full ts teacher_row x" "slot_free ts teacher_row slot c"
    by blast
  with Cons row tid show ?thesis by auto
qed

lemma fallback_attempt_lookup:
  "fallback_attempt predict ts s teachers = Inr (Some (tid, slot, c)) \<Longrightarrow>
     lookup ts tid slot = Some c"
  using fallback_attempt_Some[of predict ts s teachers tid slot c]
  by (auto simp: slot_free_def)

lemma feedback_loop_each:
  assumes "feedback_loop srt w predict teachers ts acc studs = Inr (ts', sched)"
    and "usage_counts ts acc" and "each_commit Q acc"
    and "\<And>ts before s t slot c.
           s \<in> set studs \<Longrightarrow> usage_counts ts before \<Longrightarrow>
           greedy_attempt srt w ts s teachers = Inr (Some (t, slot, c)) \<Longrightarrow>
           Q before (assign_student_to_slot (student_id s) (teacher_id t) slot c)"
    and "\<And>ts before s tid slot c.
           s \<in> set studs \<Longrightarrow> usage_counts ts before \<Longrightarrow>
           fallback_attempt predict ts s teachers = Inr (Some (tid, slot, c)) \<Longrightarrow>
           Q before (assign_student_to_slot (student_id s) tid slot c)"
  shows "usage_counts ts' sched \<and> each_commit Q sched"
  using assms
proof (induction studs arbitrary: ts acc)
  case Nil
  then show ?case by simp
next
  case (Cons s rest)
  have gstep: "\<And>ts before s t slot c.
           s \<in> set rest \<Longrightarrow> usage_counts ts before \<Longrightarrow>
           greedy_attempt srt w ts s teachers = Inr (Some (t, slot, c)) \<Longrightarrow>
           Q before (assign_student_to_slot (student_id s) (teacher_id t) slot c)"
    using Cons.prems(4) by simp
  have fstep: "\<And>ts before s tid slot c.
           s \<in> set rest \<Longrightarrow> usage_counts ts before \<Longrightarrow>
           fallback_attempt predict ts s teachers = Inr (Some (tid, slot, c)) \<Longrightarrow>
           Q before (assign_student_to_slot (student_id s) tid slot c)"
    using Cons.prems(5) by simp
  show ?case
  proof (cases "greedy_attempt srt w ts s teachers")
    case (Inl e)
    with Cons.prems(1) show ?thesis by simp
  next
    case (Inr r)
    show ?thesis
    proof (cases r)
      case (Some p)
      obtain t slot c where p: "p = (t, slot, c)" by (cases p) auto
      let ?a = "assign_student_to_slot (student_id s) (teacher_id t) slot c"
      from Inr Some p have g: "greedy_attempt srt w ts s teachers = Inr (Some (t, slot, c))"
        by simp
      from g Cons.prems(1)
      have run: "feedback_loop srt w predict teachers (increment ts (teacher_id t) slot) (acc @ [?a]) rest
                   = Inr (ts', sched)"
        by simp
      have u: "usage_counts (increment ts (teacher_id t) slot) (acc @ [?a])"
        using Cons.prems(2) greedy_attempt_lookup[OF g] by (rule usage_counts_commit)
      have "Q acc ?a" using Cons.prems(4)[OF _ Cons.prems(2) g] by simp
      with Cons.prems(3) have e: "each_commit Q (acc @ [?a])" by (simp add: each_commit_snoc)
      from Cons.IH[OF run u e gstep fstep] show ?thesis .
    next
      case None
      with Inr have g: "greedy_attempt srt w ts s teachers = Inr None" by simp
      show ?thesis
      proof (cases "fallback_attempt predict ts s teachers")
        case (Inl e)
        with g Cons.prems(1) show ?thesis by simp
      next
        case (Inr r')
        show ?thesis
        proof (cases r')
          case None
          with Inr g Cons.prems(1)
          have "feedback_loop srt w predict teachers ts acc rest = Inr (ts', sched)" by simp
          from Cons.IH[OF this Cons.prems(2,3) gstep fstep] show ?thesis .
        next
          case (Some p)
          obtain tid slot c where p: "p = (tid, slot, c)" by (cases p) auto
          let ?a = "assign_student_to_slot (student_id s) tid slot c"
          from Inr Some p have f: "fallback_attempt predict ts s teachers = Inr (Some (tid, slot, c))"
            by simp
          from g f Cons.prems(1)
          have run: "feedback_loop srt w predict teachers (increment ts tid slot) (acc @ [?a]) rest
                       = Inr (ts', sched)"
            by simp
          have u: "usage_counts (increment ts tid slot) (acc @ [?a])"
            using Cons.prems(2) fallback_attempt_lookup[OF f] by (rule usage_counts_commit)
          have "Q acc ?a" using Cons.prems(5)[OF _ Cons.prems(2) f] by simp
          with Cons.prems(3) have e: "each_commit Q (acc @ [?a])" by (simp add: each_commit_snoc)
          from Cons.IH[OF run u e gstep fstep] show ?thesis .
        qed
      qed
    qed
  qed
qed

section \<open>The matchers return on well-formed input\<close>

text \<open>
  With pairwise distinct teacher ids no subscript of the usage table fails, so the
  baseline matcher always returns a schedule; the feedback-loop matcher returns one
  whenever the baseline schedule is not empty and the recommender predicts ids of the
  teacher collection.
\<close>

lemma lookup_init_available:
  "distinct (map teacher_id teachers) \<Longrightarrow> t \<in> set teachers \<Longrightarrow>
   slot \<in> set (available_time_slots t) \<Longrightarrow>
     lookup (teacher_slots_init teachers) (teacher_id t) slot = Some 0"
proof (induction teachers rule: rev_induct)
  case Nil
  then show ?case by simp
next
  case (snoc t0 teachers)
  from snoc.prems(1) have d: "distinct (map teacher_id teachers)"
    and fresh: "teacher_id t0 \<notin> teacher_id ` set teachers"
    by simp_all
  show ?case
  proof (cases "teacher_id t = teacher_id t0")
    case True
    have "t = t0"
    proof (rule ccontr)
      assume "t \<noteq> t0"
      with snoc.prems(2) have "t \<in> set teachers" by simp
      then have "teacher_id t \<in> teacher_id ` set teachers" by (rule imageI)
      with True fresh show False by simp
    qed
    with snoc.prems(3)
    have "map_of (map (\<lambda>slot. (slot, 0::int)) (available_time_slots t0)) slot = Some 0"
      by (simp add: map_of_map_restrict)
    with True show ?thesis by (simp add: teacher_slots_init_def lookup_def)
  next
    case False
    with snoc.prems(2) have "t \<in> set teachers" by auto
    from snoc.IH[OF d this snoc.prems(3)] False show ?thesis
      by (simp add: teacher_slots_init_def lookup_def)
  qed
qed

lemma usage_covers_init:
  "distinct (map teacher_id teachers) \<Longrightarrow> usage_covers (teacher_slots_init teachers) teachers"
  by (simp add: usage_covers_def lookup_init_available)

lemma lookup_increment_keeps:
  "lookup ts a b \<noteq> None \<Longrightarrow> lookup (increment ts tid slot) a b \<noteq> None"
  by (auto simp: lookup_def increment_def split: option.splits)

lemma usage_covers_increment:
  "usage_covers ts teachers \<Longrightarrow> usage_covers (increment ts tid slot) teachers"
  by (simp add: usage_covers_def lookup_increment_keeps)

lemma first_free_slot_returns:
  "\<forall>x\<in>set slots. lookup ts tid x \<noteq> None \<Longrightarrow> \<exists>r. first_free_slot ts tid cap slots = Inr r"
  by (induction slots) auto

lemma row_slots_return:
  assumes "usage_covers ts teachers" "t \<in> set teachers"
  shows "\<exists>r. first_free_slot ts (teacher_id t) cap (common_slots s t) = Inr r"
proof (rule first_free_slot_returns)
  show "\<forall>x\<in>set (common_slots s t). lookup ts (teacher_id t) x \<noteq> None"
    using assms by (simp add: usage_covers_def set_common_slots)
qed

lemma scan_teachers_returns:
  assumes "usage_covers ts teachers"
  shows "set rows \<subseteq> set teachers \<Longrightarrow> \<exists>r. scan_teachers ts s rows = Inr r"
proof (induction rows)
  case Nil
  then show ?case by simp
next
  case (Cons t rest)
  then obtain r0 where r0: "scan_teachers ts s rest = Inr r0" by auto
  from Cons.prems have "t \<in> set teachers" by simp
  from row_slots_return[OF assms this] obtain r where
    "first_free_slot ts (teacher_id t) (max_students_per_slot t) (common_slots s t) = Inr r"
    by blast
  with r0 show ?case
    by (cases r) (auto simp: scan_teachers_Cons)
qed

lemma baseline_loop_returns:
  "usage_covers ts teachers \<Longrightarrow> \<exists>r. baseline_loop teachers ts acc studs = Inr r"
proof (induction studs arbitrary: ts acc)
  case Nil
  then show ?case by simp
next
  case (Cons s rest)
  from scan_teachers_returns[OF Cons.prems, of teachers s] obtain r where
    r: "scan_teachers ts s teachers = Inr r" by auto
  show ?case
  proof (cases r)
    case None
    with r Cons.IH[OF Cons.prems, of acc] show ?thesis by simp
  next
    case (Some p)
    obtain t slot c where "p = (t, slot, c)" by (cases p) auto
    with r Some
      Cons.IH[OF usage_covers_increment[OF Cons.prems, of "teacher_id t" slot],
        of "acc @ [assign_student_to_slot (student_id s) (teacher_id t) slot c]"]
    show ?thesis by simp
  qed
qed

lemma baseline_returns:
  assumes "distinct (map teacher_id teachers)"
  shows "\<exists>sched. match_students_to_teachers students teachers = Inr sched"
proof -
  from baseline_loop_returns[OF usage_covers_init[OF assms], of "[]" students]
  obtain r where "baseline_loop teachers (teacher_slots_init teachers) [] students = Inr r"
    by blast
  then show ?thesis by (cases r) (simp add: match_students_to_teachers_def)
qed






section \<open>The time overlap\<close>

lemma common_slots_sorted_list:
  "common_slots s t =
     sorted_list_of_set (set (preferred_time_slots s) \<inter> set (available_time_slots t))"
proof -
  have "set (preferred_time_slots s) \<inter> set (available_time_slots t) =
        set (filter (\<lambda>x. x \<in> set (available_time_slots t)) (preferred_time_slots s))"
    by auto
  then show ?thesis by (simp only: common_slots_def sorted_list_of_set_sort_remdups)
qed

lemma overlap_typed:
  "available_time_overlap (as_list a) (as_list b) = Inr (sorted_list_of_set (set a \<inter> set b))"
proof -
  have "set a \<inter> set b = set (filter (\<lambda>x. x \<in> set b) a)" by auto
  then have "sorted_list_of_set (set a \<inter> set b) = sort (remdups (filter (\<lambda>x. x \<in> set b) a))"
    by (simp only: sorted_list_of_set_sort_remdups)
  then show ?thesis
    by (simp add: available_time_overlap_def as_list_def all_str_PStr str_values_PStr)
qed

text \<open>
  C8: applied to two lists of strings, \<open>available_time_overlap\<close> returns exactly the
  lexicographically sorted sequence of their set intersection; an empty intersection
  gives the empty sequence and no error; an argument that is not a list, or a list with
  an element that is not a string, gives a TypeError.
\<close>

theorem available_time_overlap_sorted_intersection:
  "available_time_overlap (as_list a) (as_list b) = Inr (sorted_list_of_set (set a \<inter> set b)) \<and>
   (set a \<inter> set b = {} \<longrightarrow> available_time_overlap (as_list a) (as_list b) = Inr []) \<and>
   (\<not> isinstance_list x \<or> \<not> isinstance_list y \<or>
      (\<exists>v\<in>set (items x) \<union> set (items y). \<not> isinstance_str v) \<longrightarrow>
    available_time_overlap x y = Inl TypeError)"
proof (intro conjI impI)
  show "available_time_overlap (as_list a) (as_list b) = Inr (sorted_list_of_set (set a \<inter> set b))"
    by (rule overlap_typed)
next
  assume "set a \<inter> set b = {}"
  then show "available_time_overlap (as_list a) (as_list b) = Inr []"
    by (simp add: overlap_typed)
next
  assume "\<not> isinstance_list x \<or> \<not> isinstance_list y \<or>
      (\<exists>v\<in>set (items x) \<union> set (items y). \<not> isinstance_str v)"
  then show "available_time_overlap x y = Inl TypeError"
    by (auto simp: available_time_overlap_def list_all_iff)
qed

theorem available_time_overlap_sorted_intersection_witness:
  "available_time_overlap (as_list [''Tue10'', ''Mon9'', ''Tue10'']) (as_list [''Mon9'', ''Wed8'', ''Tue10''])
     = Inr [''Mon9'', ''Tue10''] \<and>
   available_time_overlap (as_list [''Mon9'']) (as_list [''Tue10'']) = Inr [] \<and>
   available_time_overlap (PStr ''Mon9'') (as_list [''Mon9'']) = Inl TypeError \<and>
   available_time_overlap (as_list [''Mon9'']) (PList [PStr ''Mon9'', PInt 9]) = Inl TypeError"
proof -
  have i: "sorted_list_of_set (set [''Tue10'', ''Mon9'', ''Tue10''] \<inter> set [''Mon9'', ''Wed8'', ''Tue10''])
             = [''Mon9'', ''Tue10'']"
    by code_simp
  have e: "set [''Mon9''] \<inter> set [''Tue10''] = ({} :: string set)" by simp
  have n: "\<not> isinstance_list (PStr ''Mon9'')" by simp
  have m: "\<exists>v\<in>set (items (as_list [''Mon9''])) \<union> set (items (PList [PStr ''Mon9'', PInt 9])).
             \<not> isinstance_str v"
    by simp
  show ?thesis
    using i e n m
      available_time_overlap_sorted_intersection
        [of "[''Tue10'', ''Mon9'', ''Tue10'']" "[''Mon9'', ''Wed8'', ''Tue10'']" "PStr ''Mon9''" "as_list [''Mon9'']"]
      available_time_overlap_sorted_intersection
        [of "[''Mon9'']" "[''Tue10'']" "as_list [''Mon9'']" "PList [PStr ''Mon9'', PInt 9]"]
    by simp
qed

section \<open>Properties of the schedules\<close>

lemma each_commit_mono:
  assumes "each_commit Q xs" "\<And>before a. Q before a \<Longrightarrow> R before a"
  shows "each_commit R xs"
  using assms unfolding each_commit_def by blast

lemma each_commit_nth:
  "each_commit Q xs \<Longrightarrow> i < length xs \<Longrightarrow> Q (take i xs) (xs ! i)"
  by (simp add: each_commit_def)

lemma each_commit_take: "each_commit Q xs \<Longrightarrow> each_commit Q (take n xs)"
  unfolding each_commit_def by (simp add: min_def)

lemma first_fit_commit_ok:
  assumes "s \<in> set students" "first_fit teachers s before a"
  shows "commit_ok teachers students before a"
proof -
  from assms(2) obtain skipped t later early late where
    h: "teachers = skipped @ t # later" "common_slots s t = early @ time_slot a # late"
       "free_in before t (time_slot a)"
       "a = assign_student_to_slot (student_id s) (teacher_id t) (time_slot a)
              (int (count_pair before (teacher_id t) (time_slot a)))"
    unfolding first_fit_def by blast
  from h(1) have t: "t \<in> set teachers" by simp
  from h(2) have "time_slot a \<in> set (common_slots s t)" by simp
  then have m: "time_slot a \<in> set (preferred_time_slots s) \<inter> set (available_time_slots t)"
    by (simp only: set_common_slots)
  show ?thesis unfolding commit_ok_def using assms(1) t m h(3,4) by blast
qed

lemma baseline_each_commit_ok:
  assumes "match_students_to_teachers students teachers = Inr sched"
  shows "each_commit (commit_ok teachers students) sched"
proof (rule each_commit_mono[OF baseline_each_first_fit[OF assms]])
  fix before a
  assume "baseline_commit teachers students before a"
  then show "commit_ok teachers students before a"
    unfolding baseline_commit_def using first_fit_commit_ok by blast
qed

lemma commit_ok_lesson_type: "commit_ok teachers students before a \<Longrightarrow> lesson_type_ok before a"
proof -
  assume "commit_ok teachers students before a"
  then obtain s :: student and t :: teacher where
    a: "a = assign_student_to_slot (student_id s) (teacher_id t) (time_slot a)
              (int (count_pair before (teacher_id t) (time_slot a)))"
    unfolding commit_ok_def by blast
  have "lesson_type_ok before (assign_student_to_slot (student_id s) (teacher_id t) (time_slot a)
              (int (count_pair before (teacher_id t) (time_slot a))))"
    by (simp add: lesson_type_ok_def) (simp add: assign_student_to_slot_def)
  with a show ?thesis by simp
qed

lemma recorded_lesson_type:
  assumes "usage_counts ts before" "lookup ts tid slot = Some c"
  shows "lesson_type_ok before (assign_student_to_slot sid tid slot c)"
proof -
  from assms have "c = int (count_pair before tid slot)" by (simp add: usage_counts_def)
  then show ?thesis by (simp add: lesson_type_ok_def) (simp add: assign_student_to_slot_def)
qed

lemma feedback_run_loop:
  assumes "match_with_feedback_loop srt fit students teachers fb = Inr sched"
  shows "\<exists>initial ts'. match_students_to_teachers students teachers = Inr initial \<and> initial \<noteq> [] \<and>
           feedback_loop srt (teacher_weights fb) (fit (training_examples students initial)) teachers
             (teacher_slots_init teachers) [] students = Inr (ts', sched)"
  using assms
  by (auto simp: match_with_feedback_loop_def train_teacher_recommender_def
           split: sum.splits if_splits)

lemma feedback_each_lesson_type:
  assumes "match_with_feedback_loop srt fit students teachers fb = Inr sched"
  shows "each_commit lesson_type_ok sched"
proof -
  from feedback_run_loop[OF assms] obtain initial ts' where
    run: "feedback_loop srt (teacher_weights fb) (fit (training_examples students initial)) teachers
             (teacher_slots_init teachers) [] students = Inr (ts', sched)"
    by blast
  have "usage_counts ts' sched \<and> each_commit lesson_type_ok sched"
  proof (rule feedback_loop_each[OF run usage_counts_init each_commit_Nil])
    fix ts before s t slot c
    assume "usage_counts ts before"
      "greedy_attempt srt (teacher_weights fb) ts s teachers = Inr (Some (t, slot, c))"
    then show "lesson_type_ok before (assign_student_to_slot (student_id s) (teacher_id t) slot c)"
      using greedy_attempt_lookup recorded_lesson_type by blast
  next
    fix ts before s tid slot c
    assume "usage_counts ts before"
      "fallback_attempt (fit (training_examples students initial)) ts s teachers = Inr (Some (tid, slot, c))"
    then show "lesson_type_ok before (assign_student_to_slot (student_id s) tid slot c)"
      using fallback_attempt_lookup recorded_lesson_type by blast
  qed
  then show ?thesis by simp
qed

text \<open>
  C4: in the schedule returned by either matcher, an assignment has lesson type "1:1"
  when no earlier assignment of the schedule is on the same (teacher id, slot) pair, and
  "group" otherwise: the type is decided by the occupancy of the pair before the commit.
\<close>

theorem lesson_type_rule:
  assumes "match_students_to_teachers students teachers = Inr sched \<or>
           match_with_feedback_loop srt fit students teachers fb = Inr sched"
    and "i < length sched"
  shows "lesson_type (sched ! i) =
           (if count_pair (take i sched) (a_teacher_id (sched ! i)) (time_slot (sched ! i)) = 0
            then ''1:1'' else ''group'')"
proof -
  have "each_commit lesson_type_ok sched"
  proof (rule disjE[OF assms(1)])
    assume "match_students_to_teachers students teachers = Inr sched"
    from baseline_each_commit_ok[OF this] show ?thesis
      by (rule each_commit_mono) (rule commit_ok_lesson_type)
  next
    assume "match_with_feedback_loop srt fit students teachers fb = Inr sched"
    then show ?thesis by (rule feedback_each_lesson_type)
  qed
  from each_commit_nth[OF this assms(2)] show ?thesis by (simp add: lesson_type_ok_def)
qed


lemma example_baseline_run:
  "match_students_to_teachers [S1, S2, S3] [T1, T2] = Inr example_schedule"
  by code_simp

theorem lesson_type_rule_witness:
  "match_students_to_teachers [S1, S2, S3] [T1, T2] = Inr example_schedule \<and>
   1 < length example_schedule \<and>
   lesson_type (example_schedule ! 0) = ''1:1'' \<and>
   lesson_type (example_schedule ! 1) = ''group''"
proof -
  have l0: "0 < length example_schedule" and l1: "1 < length example_schedule"
    by (simp_all add: example_schedule_def)
  have r: "match_students_to_teachers [S1, S2, S3] [T1, T2] = Inr example_schedule \<or>
           match_with_feedback_loop stable_sort_descending fit_first [S1, S2, S3] [T1, T2] None
             = Inr example_schedule"
    using example_baseline_run by simp
  have c0: "count_pair (take 0 example_schedule) (a_teacher_id (example_schedule ! 0))
              (time_slot (example_schedule ! 0)) = 0"
    by (simp add: count_pair_def)
  have c1: "count_pair (take 1 example_schedule) (a_teacher_id (example_schedule ! 1))
              (time_slot (example_schedule ! 1)) \<noteq> 0"
    by (simp add: count_pair_def example_schedule_def)
  show ?thesis
    using lesson_type_rule[OF r l0] lesson_type_rule[OF r l1] c0 c1 l1 example_baseline_run
    by simp
qed

lemma subseq_set_subset: "subseq xs ys \<Longrightarrow> set xs \<subseteq> set ys"
  by (auto elim: list_emb_set)

lemma subseq_distinct_list: "subseq xs ys \<Longrightarrow> distinct ys \<Longrightarrow> distinct xs"
proof (induction rule: list_emb.induct)
  case (list_emb_Nil ys)
  then show ?case by simp
next
  case (list_emb_Cons xs ys y)
  then show ?case by simp
next
  case (list_emb_Cons2 x y xs ys)
  from list_emb_Cons2 have "x \<notin> set ys" "distinct xs" by simp_all
  moreover from list_emb_Cons2 have "set xs \<subseteq> set ys" by (simp add: subseq_set_subset)
  ultimately show ?case by auto
qed

lemma baseline_loop_students:
  "baseline_loop teachers ts acc studs = Inr (ts', sched) \<Longrightarrow>
     \<exists>new. sched = acc @ new \<and> subseq (map a_student_id new) (map student_id studs)"
proof (induction studs arbitrary: ts acc)
  case Nil
  then show ?case by simp
next
  case (Cons s rest)
  show ?case
  proof (cases "scan_teachers ts s teachers")
    case (Inl e)
    with Cons.prems show ?thesis by simp
  next
    case (Inr r)
    show ?thesis
    proof (cases r)
      case None
      with Inr Cons.prems have "baseline_loop teachers ts acc rest = Inr (ts', sched)" by simp
      from Cons.IH[OF this] show ?thesis by auto
    next
      case (Some p)
      obtain t slot c where p: "p = (t, slot, c)" by (cases p) auto
      let ?a = "assign_student_to_slot (student_id s) (teacher_id t) slot c"
      from Inr Some p Cons.prems
      have "baseline_loop teachers (increment ts (teacher_id t) slot) (acc @ [?a]) rest = Inr (ts', sched)"
        by simp
      from Cons.IH[OF this] obtain new where
        n: "sched = (acc @ [?a]) @ new" "subseq (map a_student_id new) (map student_id rest)"
        by blast
      then have "sched = acc @ (?a # new) \<and>
                 subseq (map a_student_id (?a # new)) (map student_id (s # rest))"
        by simp
      then show ?thesis by blast
    qed
  qed
qed

lemma feedback_loop_students:
  "feedback_loop srt w predict teachers ts acc studs = Inr (ts', sched) \<Longrightarrow>
     \<exists>new. sched = acc @ new \<and> subseq (map a_student_id new) (map student_id studs)"
proof (induction studs arbitrary: ts acc)
  case Nil
  then show ?case by simp
next
  case (Cons s rest)
  have commit: "\<exists>new. sched = acc @ new \<and> subseq (map a_student_id new) (map student_id (s # rest))"
    if "feedback_loop srt w predict teachers ts1 (acc @ [assign_student_to_slot (student_id s) tid slot c]) rest
          = Inr (ts', sched)" for ts1 tid slot c
  proof -
    let ?a = "assign_student_to_slot (student_id s) tid slot c"
    from Cons.IH[OF that] obtain new where
      n: "sched = (acc @ [?a]) @ new" "subseq (map a_student_id new) (map student_id rest)"
      by blast
    then have "sched = acc @ (?a # new) \<and>
               subseq (map a_student_id (?a # new)) (map student_id (s # rest))"
      by simp
    then show ?thesis by blast
  qed
  have skip: "\<exists>new. sched = acc @ new \<and> subseq (map a_student_id new) (map student_id (s # rest))"
    if "feedback_loop srt w predict teachers ts acc rest = Inr (ts', sched)"
    using Cons.IH[OF that] by auto
  show ?case
  proof (cases "greedy_attempt srt w ts s teachers")
    case (Inl e)
    with Cons.prems show ?thesis by simp
  next
    case (Inr r)
    show ?thesis
    proof (cases r)
      case (Some p)
      obtain t slot c where "p = (t, slot, c)" by (cases p) auto
      with Inr Some Cons.prems commit[of "increment ts (teacher_id t) slot" "teacher_id t" slot c]
      show ?thesis by simp
    next
      case None
      note g = this
      show ?thesis
      proof (cases "fallback_attempt predict ts s teachers")
        case (Inl e)
        with Inr g Cons.prems show ?thesis by simp
      next
        case (Inr r')
        show ?thesis
        proof (cases r')
          case None
          with Inr g \<open>greedy_attempt srt w ts s teachers = Inr r\<close> Cons.prems skip
          show ?thesis by simp
        next
          case (Some p)
          obtain tid slot c where "p = (tid, slot, c)" by (cases p) auto
          with Inr Some g \<open>greedy_attempt srt w ts s teachers = Inr r\<close> Cons.prems
            commit[of "increment ts tid slot" tid slot c]
          show ?thesis by simp
        qed
      qed
    qed
  qed
qed

text \<open>
  C3: given students with pairwise distinct ids, no student id occurs in more than one
  assignment of the schedule returned by either matcher.
\<close>

theorem student_assigned_once:
  assumes "match_students_to_teachers students teachers = Inr sched \<or>
           match_with_feedback_loop srt fit students teachers fb = Inr sched"
    and "distinct (map student_id students)"
  shows "distinct (map a_student_id sched)"
proof -
  have "subseq (map a_student_id sched) (map student_id students)"
  proof (rule disjE[OF assms(1)])
    assume "match_students_to_teachers students teachers = Inr sched"
    then obtain ts' where
      "baseline_loop teachers (teacher_slots_init teachers) [] students = Inr (ts', sched)"
      by (auto simp: match_students_to_teachers_def split: sum.splits)
    from baseline_loop_students[OF this] show ?thesis by simp
  next
    assume "match_with_feedback_loop srt fit students teachers fb = Inr sched"
    from feedback_run_loop[OF this] obtain initial ts' where
      "feedback_loop srt (teacher_weights fb) (fit (training_examples students initial)) teachers
             (teacher_slots_init teachers) [] students = Inr (ts', sched)"
      by blast
    from feedback_loop_students[OF this] show ?thesis by simp
  qed
  then show ?thesis using assms(2) by (rule subseq_distinct_list)
qed

theorem student_assigned_once_witness:
  "distinct (map student_id [S1, S2, S3]) \<and>
   match_students_to_teachers [S1, S2, S3] [T1, T2] = Inr example_schedule \<and>
   distinct (map a_student_id example_schedule)"
proof -
  have d: "distinct (map student_id [S1, S2, S3])" by (simp add: S1_def S2_def S3_def)
  have r: "match_students_to_teachers [S1, S2, S3] [T1, T2] = Inr example_schedule \<or>
           match_with_feedback_loop stable_sort_descending fit_first [S1, S2, S3] [T1, T2] None
             = Inr example_schedule"
    using example_baseline_run by simp
  show ?thesis using student_assigned_once[OF r d] d example_baseline_run by simp
qed


lemma with_weight_set:
  "(t, v) \<in> set (with_weight w cands) \<longleftrightarrow> t \<in> set cands \<and> v = w (teacher_id t)"
  by (auto simp: with_weight_def)

lemma greedy_attempt_found:
  assumes "sorts_descending srt"
    and "greedy_attempt srt w ts s teachers = Inr (Some (t, slot, c))"
  shows "t \<in> set teachers \<and> subjects_overlap s t \<and> slot \<in> set (common_slots s t) \<and>
         slot_free ts t slot c"
proof -
  let ?rows = "srt (with_weight w (filter (subjects_overlap s) teachers))"
  from assms(2) have "scan_candidates ts s ?rows = Inr (Some (t, slot, c))"
    by (simp add: greedy_attempt_scan)
  then have "candidates_found ts s ?rows t slot c" by (rule scan_candidates_Some)
  then obtain skipped v later early late where
    h: "?rows = skipped @ (t, v) # later" "common_slots s t = early @ slot # late"
       "slot_free ts t slot c"
    unfolding candidates_found_def by blast
  from h(1) have "(t, v) \<in> set ?rows" by simp
  then have "(t, v) \<in> set (with_weight w (filter (subjects_overlap s) teachers))"
    by (simp only: sorts_descending_set[OF assms(1)])
  then have "t \<in> set teachers" "subjects_overlap s t" by (simp_all add: with_weight_set)
  moreover from h(2) have "slot \<in> set (common_slots s t)" by simp
  ultimately show ?thesis using h(3) by simp
qed

lemma commit_okI:
  assumes "s \<in> set students" "t \<in> set teachers" "slot \<in> set (common_slots s t)"
    "usage_counts ts before" "slot_free ts t slot c"
  shows "commit_ok teachers students before
           (assign_student_to_slot (student_id s) (teacher_id t) slot c)"
proof -
  from slot_free_free_in[OF assms(4,5)]
  have c: "c = int (count_pair before (teacher_id t) slot)" and f: "free_in before t slot"
    by simp_all
  from assms(3) have m: "slot \<in> set (preferred_time_slots s) \<inter> set (available_time_slots t)"
    by (simp only: set_common_slots)
  show ?thesis unfolding commit_ok_def
    apply (rule bexI[OF _ assms(1)], rule bexI[OF _ assms(2)])
    using c f m by simp
qed

lemma fallback_attempt_found:
  assumes "fallback_attempt predict ts s teachers = Inr (Some (tid, slot, c))"
  shows "\<exists>teacher_row\<in>set teachers. teacher_id teacher_row = tid \<and> tid = predict (s_subjects s) \<and>
           slot \<in> set (common_slots s teacher_row) \<and> slot_free ts teacher_row slot c"
proof -
  from fallback_attempt_Some[OF assms] obtain teacher_row others early late where
    h: "tid = predict (s_subjects s)" "teacher_id teacher_row = tid" "teacher_row \<in> set teachers"
       "common_slots s teacher_row = early @ slot # late" "slot_free ts teacher_row slot c"
    by blast
  from h(4) have "slot \<in> set (common_slots s teacher_row)" by simp
  with h show ?thesis by blast
qed

lemma feedback_each_commit_ok:
  assumes "sorts_descending srt"
    and "match_with_feedback_loop srt fit students teachers fb = Inr sched"
  shows "each_commit (commit_ok teachers students) sched"
proof -
  from feedback_run_loop[OF assms(2)] obtain initial ts' where
    run: "feedback_loop srt (teacher_weights fb) (fit (training_examples students initial)) teachers
             (teacher_slots_init teachers) [] students = Inr (ts', sched)"
    by blast
  have "usage_counts ts' sched \<and> each_commit (commit_ok teachers students) sched"
  proof (rule feedback_loop_each[OF run usage_counts_init each_commit_Nil])
    fix ts before s t slot c
    assume s: "s \<in> set students" and u: "usage_counts ts before"
      and g: "greedy_attempt srt (teacher_weights fb) ts s teachers = Inr (Some (t, slot, c))"
    from greedy_attempt_found[OF assms(1) g] s u
    show "commit_ok teachers students before
            (assign_student_to_slot (student_id s) (teacher_id t) slot c)"
      by (simp add: commit_okI)
  next
    fix ts before s tid slot c
    assume s: "s \<in> set students" and u: "usage_counts ts before"
      and f: "fallback_attempt (fit (training_examples students initial)) ts s teachers
                = Inr (Some (tid, slot, c))"
    from fallback_attempt_found[OF f] obtain teacher_row where
      r: "teacher_row \<in> set teachers" "teacher_id teacher_row = tid"
         "slot \<in> set (common_slots s teacher_row)" "slot_free ts teacher_row slot c"
      by blast
    from commit_okI[OF s r(1) r(3) u r(4)] r(2)
    show "commit_ok teachers students before (assign_student_to_slot (student_id s) tid slot c)"
      by simp
  qed
  then show ?thesis by simp
qed

lemma capacity_of_commits:
  assumes "each_commit (commit_ok teachers students) sched"
    and "distinct (map teacher_id teachers)" and "t \<in> set teachers"
    and "0 \<le> max_students_per_slot t"
  shows "int (count_pair sched (teacher_id t) slot) \<le> max_students_per_slot t"
  using assms(1)
proof (induction sched rule: rev_induct)
  case Nil
  with assms(4) show ?case by (simp add: count_pair_def)
next
  case (snoc a xs)
  from snoc.prems have e: "each_commit (commit_ok teachers students) xs"
    and ok: "commit_ok teachers students xs a"
    by (simp_all add: each_commit_snoc)
  from snoc.IH[OF e] have ih: "int (count_pair xs (teacher_id t) slot) \<le> max_students_per_slot t" .
  show ?case
  proof (cases "a_teacher_id a = teacher_id t \<and> time_slot a = slot")
    case False
    with ih show ?thesis by (auto simp: count_pair_snoc)
  next
    case True
    from ok obtain s' :: student and t' :: teacher where
      h: "t' \<in> set teachers" "free_in xs t' (time_slot a)"
         "a = assign_student_to_slot (student_id s') (teacher_id t') (time_slot a)
                (int (count_pair xs (teacher_id t') (time_slot a)))"
      unfolding commit_ok_def by blast
    from h(3) have "a_teacher_id a = teacher_id t'"
      by (metis assign_fields(2))
    with True have "teacher_id t' = teacher_id t" by simp
    moreover from assms(2) have "inj_on teacher_id (set teachers)" by (simp add: distinct_map)
    ultimately have "t' = t" using h(1) assms(3) by (simp add: inj_on_def)
    with h(2) True have "int (count_pair xs (teacher_id t) slot) < max_students_per_slot t"
      by (simp add: free_in_def)
    with True show ?thesis by (simp add: count_pair_snoc)
  qed
qed

text \<open>
  C1: in the schedule returned by either matcher, every assignment is committed while
  the occupancy of its (teacher id, slot) pair is below the capacity of a teacher row
  with that id; hence, for teachers with pairwise distinct ids, a teacher \<open>t\<close> of
  non-negative capacity and a slot, the number of assignments on (id of \<open>t\<close>, slot) is
  at most the capacity of \<open>t\<close>, in the returned schedule and in every prefix of it,
  that is at every point of the run.
\<close>

theorem capacity_invariant:
  assumes "match_students_to_teachers students teachers = Inr sched \<or>
           (sorts_descending srt \<and>
            match_with_feedback_loop srt fit students teachers fb = Inr sched)"
  shows "(\<forall>i<length sched. \<exists>t\<in>set teachers.
            a_teacher_id (sched ! i) = teacher_id t \<and>
            free_in (take i sched) t (time_slot (sched ! i))) \<and>
         (distinct (map teacher_id teachers) \<longrightarrow>
            (\<forall>t\<in>set teachers. 0 \<le> max_students_per_slot t \<longrightarrow>
               (\<forall>slot n. int (count_pair (take n sched) (teacher_id t) slot)
                            \<le> max_students_per_slot t)))"
proof (intro conjI impI ballI allI)
  have e: "each_commit (commit_ok teachers students) sched"
    using assms baseline_each_commit_ok feedback_each_commit_ok by blast
  {
    fix i assume "i < length sched"
    from each_commit_nth[OF e this] obtain s :: student and t :: teacher where
      h: "t \<in> set teachers" "free_in (take i sched) t (time_slot (sched ! i))"
         "sched ! i = assign_student_to_slot (student_id s) (teacher_id t) (time_slot (sched ! i))
                (int (count_pair (take i sched) (teacher_id t) (time_slot (sched ! i))))"
      unfolding commit_ok_def by blast
    from h(3) have "a_teacher_id (sched ! i) = teacher_id t" by (metis assign_fields(2))
    with h(1,2) show "\<exists>t\<in>set teachers.
            a_teacher_id (sched ! i) = teacher_id t \<and>
            free_in (take i sched) t (time_slot (sched ! i))"
      by blast
  }
  {
    fix t slot n
    assume d: "distinct (map teacher_id teachers)" and t: "t \<in> set teachers"
      and c: "0 \<le> max_students_per_slot t"
    from e have "each_commit (commit_ok teachers students) (take n sched)"
      by (rule each_commit_take)
    then show "int (count_pair (take n sched) (teacher_id t) slot) \<le> max_students_per_slot t"
      using d t c by (rule capacity_of_commits)
  }
qed

lemma stable_sort_descending_sorts: "sorts_descending stable_sort_descending"
proof -
  have "sorted_wrt (\<lambda>a b. snd b \<le> snd a) (rev (sort_key snd (rev rows)))"
    for rows :: "(teacher \<times> rat) list"
    using sorted_sort_key[of snd "rev rows"] by (simp add: sorted_wrt_rev sorted_map)
  then show ?thesis by (simp add: sorts_descending_def stable_sort_descending_def)
qed

lemma example_feedback_run:
  "match_with_feedback_loop stable_sort_descending fit_first [S1, S2, S3] [T1] None
     = Inr example_schedule_T1"
  by code_simp

theorem capacity_invariant_witness:
  "sorts_descending stable_sort_descending \<and>
   match_with_feedback_loop stable_sort_descending fit_first [S1, S2, S3] [T1] None
     = Inr example_schedule_T1 \<and>
   1 < length example_schedule_T1 \<and>
   (\<exists>t\<in>set [T1]. a_teacher_id (example_schedule_T1 ! 1) = teacher_id t \<and>
      free_in (take 1 example_schedule_T1) t (time_slot (example_schedule_T1 ! 1))) \<and>
   distinct (map teacher_id [T1]) \<and> T1 \<in> set [T1] \<and> 0 \<le> max_students_per_slot T1 \<and>
   int (count_pair (take 2 example_schedule_T1) (teacher_id T1) ''Mon9'')
     \<le> max_students_per_slot T1 \<and>
   count_pair (take 2 example_schedule_T1) (teacher_id T1) ''Mon9'' = 2 \<and>
   max_students_per_slot T1 = 2"
proof -
  note sd = stable_sort_descending_sorts
  note f = example_feedback_run
  have l: "1 < length example_schedule_T1"
    by (simp add: example_schedule_T1_def example_schedule_def)
  have d: "distinct (map teacher_id [T1])" and m: "T1 \<in> set [T1]" by simp_all
  have c: "0 \<le> max_students_per_slot T1" and c2: "max_students_per_slot T1 = 2"
    by (simp_all add: T1_def)
  have r: "match_students_to_teachers [S1, S2, S3] [T1] = Inr example_schedule_T1 \<or>
           (sorts_descending stable_sort_descending \<and>
            match_with_feedback_loop stable_sort_descending fit_first [S1, S2, S3] [T1] None
              = Inr example_schedule_T1)"
    using sd f by simp
  have n: "count_pair (take 2 example_schedule_T1) (teacher_id T1) ''Mon9'' = 2"
    by (simp add: count_pair_def example_schedule_T1_def example_schedule_def T1_def)
  note th = capacity_invariant[OF r]
  from th l have c1: "\<exists>t\<in>set [T1]. a_teacher_id (example_schedule_T1 ! 1) = teacher_id t \<and>
      free_in (take 1 example_schedule_T1) t (time_slot (example_schedule_T1 ! 1))"
    by blast
  from th d m c
  have c3: "int (count_pair (take 2 example_schedule_T1) (teacher_id T1) ''Mon9'')
              \<le> max_students_per_slot T1"
    by blast
  from sd f l c1 d m c c3 n c2 show ?thesis by blast
qed

lemma each_commit_member:
  assumes "each_commit Q sched" "a \<in> set sched"
  shows "\<exists>before. Q before a"
proof -
  from assms(2) obtain i where "i < length sched" "sched ! i = a"
    by (auto simp: in_set_conv_nth)
  with each_commit_nth[OF assms(1), of i] show ?thesis by blast
qed

lemma greedy_soundI:
  assumes "t \<in> set teachers" "subjects_overlap s t" "slot \<in> set (common_slots s t)"
  shows "greedy_sound teachers s (assign_student_to_slot (student_id s) (teacher_id t) slot c)"
proof -
  from assms(3) have "slot \<in> set (preferred_time_slots s) \<inter> set (available_time_slots t)"
    by (simp only: set_common_slots)
  with assms(1,2) show ?thesis
    unfolding greedy_sound_def subjects_overlap_def by (intro bexI[of _ t]) simp_all
qed

lemma first_fit_greedy_sound:
  assumes "first_fit teachers s before a"
  shows "greedy_sound teachers s a"
proof -
  from assms obtain skipped t later early late where
    h: "teachers = skipped @ t # later" "subjects_overlap s t"
       "common_slots s t = early @ time_slot a # late"
       "a = assign_student_to_slot (student_id s) (teacher_id t) (time_slot a)
              (int (count_pair before (teacher_id t) (time_slot a)))"
    unfolding first_fit_def by blast
  from h(1) have t: "t \<in> set teachers" by simp
  from h(3) have m: "time_slot a \<in> set (common_slots s t)" by simp
  from greedy_soundI[OF t h(2) m] h(4) show ?thesis by metis
qed

lemma baseline_greedy_sound:
  assumes "match_students_to_teachers students teachers = Inr sched" "a \<in> set sched"
  shows "\<exists>s\<in>set students. greedy_sound teachers s a"
proof -
  from each_commit_member[OF baseline_each_first_fit[OF assms(1)] assms(2)]
  obtain before where "baseline_commit teachers students before a" by blast
  then show ?thesis unfolding baseline_commit_def using first_fit_greedy_sound by blast
qed

lemma feedback_each_path:
  assumes "sorts_descending srt"
    and "match_students_to_teachers students teachers = Inr initial"
    and "match_with_feedback_loop srt fit students teachers fb = Inr final"
    and "a \<in> set final"
  shows "\<exists>s\<in>set students. greedy_sound teachers s a \<or>
           (a_student_id a = student_id s \<and>
            a_teacher_id a = fit (training_examples students initial) (s_subjects s))"
proof -
  let ?Q = "\<lambda>before a. \<exists>s\<in>set students. greedy_sound teachers s a \<or>
           (a_student_id a = student_id s \<and>
            a_teacher_id a = fit (training_examples students initial) (s_subjects s))"
  from feedback_run_loop[OF assms(3)] assms(2) obtain ts' where
    run: "feedback_loop srt (teacher_weights fb) (fit (training_examples students initial)) teachers
             (teacher_slots_init teachers) [] students = Inr (ts', final)"
    by auto
  have "usage_counts ts' final \<and> each_commit ?Q final"
  proof (rule feedback_loop_each[OF run usage_counts_init each_commit_Nil])
    fix ts before s t slot c
    assume s: "s \<in> set students"
      and g: "greedy_attempt srt (teacher_weights fb) ts s teachers = Inr (Some (t, slot, c))"
    from greedy_attempt_found[OF assms(1) g]
    have "greedy_sound teachers s (assign_student_to_slot (student_id s) (teacher_id t) slot c)"
      by (simp add: greedy_soundI)
    with s show "?Q before (assign_student_to_slot (student_id s) (teacher_id t) slot c)"
      by blast
  next
    fix ts before s tid slot c
    assume s: "s \<in> set students"
      and f: "fallback_attempt (fit (training_examples students initial)) ts s teachers
                = Inr (Some (tid, slot, c))"
    from fallback_attempt_found[OF f]
    have "tid = fit (training_examples students initial) (s_subjects s)" by blast
    with s show "?Q before (assign_student_to_slot (student_id s) tid slot c)"
      by (intro bexI[of _ s]) simp_all
  qed
  then have "each_commit ?Q final" by simp
  from each_commit_member[OF this assms(4)] show ?thesis by blast
qed

text \<open>
  C6: every assignment of the baseline matcher, and every assignment the greedy scan of
  the feedback-loop matcher commits, has its slot in both the student's preferred slots
  and the teacher's available slots, and student and teacher share a subject. In a
  schedule of the feedback-loop matcher every assignment is such a greedy one or goes to
  the teacher the recommender predicted for the student.
\<close>

theorem greedy_path_sound:
  "(match_students_to_teachers students teachers = Inr sched \<longrightarrow>
      (\<forall>a\<in>set sched. \<exists>s\<in>set students. greedy_sound teachers s a)) \<and>
   (sorts_descending srt \<and> greedy_attempt srt w ts s teachers = Inr (Some (t, slot, c)) \<longrightarrow>
      greedy_sound teachers s (assign_student_to_slot (student_id s) (teacher_id t) slot c)) \<and>
   (sorts_descending srt \<and> match_students_to_teachers students teachers = Inr initial \<and>
    match_with_feedback_loop srt fit students teachers fb = Inr final \<longrightarrow>
      (\<forall>a\<in>set final. \<exists>s\<in>set students. greedy_sound teachers s a \<or>
          (a_student_id a = student_id s \<and>
           a_teacher_id a = fit (training_examples students initial) (s_subjects s))))"
proof (intro conjI impI ballI)
  fix a
  assume "match_students_to_teachers students teachers = Inr sched" "a \<in> set sched"
  then show "\<exists>s\<in>set students. greedy_sound teachers s a" by (rule baseline_greedy_sound)
next
  assume "sorts_descending srt \<and> greedy_attempt srt w ts s teachers = Inr (Some (t, slot, c))"
  then have "t \<in> set teachers \<and> subjects_overlap s t \<and> slot \<in> set (common_slots s t) \<and>
             slot_free ts t slot c"
    using greedy_attempt_found by blast
  then show "greedy_sound teachers s (assign_student_to_slot (student_id s) (teacher_id t) slot c)"
    by (simp add: greedy_soundI)
next
  fix a
  assume "sorts_descending srt \<and> match_students_to_teachers students teachers = Inr initial \<and>
    match_with_feedback_loop srt fit students teachers fb = Inr final" "a \<in> set final"
  then show "\<exists>s\<in>set students. greedy_sound teachers s a \<or>
          (a_student_id a = student_id s \<and>
           a_teacher_id a = fit (training_examples students initial) (s_subjects s))"
    using feedback_each_path by blast
qed


lemma example_feedback_run_T1_T2:
  "match_with_feedback_loop stable_sort_descending fit_first [S1, S2, S3] [T1, T2] None
     = Inr example_schedule"
  by code_simp

lemma example_greedy_attempt:
  "greedy_attempt stable_sort_descending (teacher_weights None) (teacher_slots_init [T1, T2]) S1 [T1, T2]
     = Inr (Some (T1, ''Mon9'', 0))"
  by code_simp

theorem greedy_path_sound_witness:
  "match_students_to_teachers [S1, S2, S3] [T1, T2] = Inr example_schedule \<and>
   sorts_descending stable_sort_descending \<and>
   greedy_attempt stable_sort_descending (teacher_weights None) (teacher_slots_init [T1, T2]) S1 [T1, T2]
     = Inr (Some (T1, ''Mon9'', 0)) \<and>
   match_with_feedback_loop stable_sort_descending fit_first [S1, S2, S3] [T1, T2] None
     = Inr example_schedule \<and>
   (\<exists>s\<in>set [S1, S2, S3]. greedy_sound [T1, T2] s (example_schedule ! 2)) \<and>
   greedy_sound [T1, T2] S1 (assign_student_to_slot (student_id S1) (teacher_id T1) ''Mon9'' 0) \<and>
   (\<exists>s\<in>set [S1, S2, S3]. greedy_sound [T1, T2] s (example_schedule ! 1) \<or>
      (a_student_id (example_schedule ! 1) = student_id s \<and>
       a_teacher_id (example_schedule ! 1)
         = fit_first (training_examples [S1, S2, S3] example_schedule) (s_subjects s)))"
proof -
  note r = example_baseline_run
  note sd = stable_sort_descending_sorts
  note g = example_greedy_attempt
  note f = example_feedback_run_T1_T2
  have a1: "example_schedule ! 1 \<in> set example_schedule"
    and a2: "example_schedule ! 2 \<in> set example_schedule"
    by (simp_all add: example_schedule_def)
  note th = greedy_path_sound[where students = "[S1, S2, S3]" and teachers = "[T1, T2]"
      and sched = example_schedule and srt = stable_sort_descending
      and w = "teacher_weights None" and ts = "teacher_slots_init [T1, T2]" and s = S1
      and t = T1 and slot = "''Mon9''" and c = 0 and initial = example_schedule
      and fit = fit_first and fb = None and final = example_schedule]
  from th r a2 have c1: "\<exists>s\<in>set [S1, S2, S3]. greedy_sound [T1, T2] s (example_schedule ! 2)"
    by blast
  from th sd g
  have c2: "greedy_sound [T1, T2] S1 (assign_student_to_slot (student_id S1) (teacher_id T1) ''Mon9'' 0)"
    by blast
  from th sd r f a1
  have c3: "\<exists>s\<in>set [S1, S2, S3]. greedy_sound [T1, T2] s (example_schedule ! 1) \<or>
      (a_student_id (example_schedule ! 1) = student_id s \<and>
       a_teacher_id (example_schedule ! 1)
         = fit_first (training_examples [S1, S2, S3] example_schedule) (s_subjects s))"
    by blast
  from r sd g f c1 c2 c3 show ?thesis by blast
qed

lemma commit_ok_slot_sound:
  assumes "commit_ok teachers students before a"
  shows "slot_sound teachers students a"
proof -
  from assms obtain s :: student and t :: teacher where
    h: "s \<in> set students" "t \<in> set teachers"
       "time_slot a \<in> set (preferred_time_slots s) \<inter> set (available_time_slots t)"
       "a = assign_student_to_slot (student_id s) (teacher_id t) (time_slot a)
              (int (count_pair before (teacher_id t) (time_slot a)))"
    unfolding commit_ok_def by blast
  from h(4) have "a_student_id a = student_id s" "a_teacher_id a = teacher_id t"
    by (metis assign_fields(1), metis assign_fields(2))
  with h(1-3) show ?thesis unfolding slot_sound_def by blast
qed

text \<open>
  C10: in the schedule of the feedback-loop matcher every assignment, greedy or fallback,
  has its slot in the student's preferred slots and in the available slots of a teacher
  row with the assignment's teacher id, and (teacher ids distinct, capacities not
  negative) the occupancy of every pair stays within the capacity. A fallback commit
  goes to the first row with the predicted id, on a common slot whose entry in the shared
  usage table is below that row's capacity; no subject condition is involved.
\<close>

theorem fallback_path_sound:
  "(sorts_descending srt \<and> match_with_feedback_loop srt fit students teachers fb = Inr sched \<longrightarrow>
      (\<forall>a\<in>set sched. slot_sound teachers students a) \<and>
      (distinct (map teacher_id teachers) \<longrightarrow>
         (\<forall>t\<in>set teachers. 0 \<le> max_students_per_slot t \<longrightarrow>
            (\<forall>slot. int (count_pair sched (teacher_id t) slot) \<le> max_students_per_slot t)))) \<and>
   (fallback_attempt predict ts s teachers = Inr (Some (tid, slot, c)) \<longrightarrow>
      (\<exists>teacher_row\<in>set teachers.
         teacher_id teacher_row = tid \<and> tid = predict (s_subjects s) \<and>
         slot \<in> set (preferred_time_slots s) \<inter> set (available_time_slots teacher_row) \<and>
         lookup ts tid slot = Some c \<and> c < max_students_per_slot teacher_row))"
proof (intro conjI impI)
  assume h: "sorts_descending srt \<and> match_with_feedback_loop srt fit students teachers fb = Inr sched"
  then have e: "each_commit (commit_ok teachers students) sched"
    using feedback_each_commit_ok by blast
  show "\<forall>a\<in>set sched. slot_sound teachers students a"
    using each_commit_member[OF e] commit_ok_slot_sound by blast
  assume d: "distinct (map teacher_id teachers)"
  show "\<forall>t\<in>set teachers. 0 \<le> max_students_per_slot t \<longrightarrow>
            (\<forall>slot. int (count_pair sched (teacher_id t) slot) \<le> max_students_per_slot t)"
    using capacity_of_commits[OF e d] by blast
next
  assume "fallback_attempt predict ts s teachers = Inr (Some (tid, slot, c))"
  from fallback_attempt_found[OF this] obtain teacher_row where
    r: "teacher_row \<in> set teachers" "teacher_id teacher_row = tid" "tid = predict (s_subjects s)"
       "slot \<in> set (common_slots s teacher_row)" "slot_free ts teacher_row slot c"
    by blast
  from r(4) have "slot \<in> set (preferred_time_slots s) \<inter> set (available_time_slots teacher_row)"
    by (simp only: set_common_slots)
  moreover from r(5) r(2) have "lookup ts tid slot = Some c \<and> c < max_students_per_slot teacher_row"
    by (simp add: slot_free_def)
  ultimately show "\<exists>teacher_row\<in>set teachers.
         teacher_id teacher_row = tid \<and> tid = predict (s_subjects s) \<and>
         slot \<in> set (preferred_time_slots s) \<inter> set (available_time_slots teacher_row) \<and>
         lookup ts tid slot = Some c \<and> c < max_students_per_slot teacher_row"
    using r(1,2,3) by blast
qed


lemma example_fallback_run:
  "match_with_feedback_loop stable_sort_descending fit_first [S1, S4] [T1] None
     = Inr example_fallback_schedule"
  by code_simp

lemma example_fallback_attempt:
  "fallback_attempt (fit_first []) (increment (teacher_slots_init [T1]) 1 ''Mon9'') S4 [T1]
     = Inr (Some (1, ''Mon9'', 1))"
  by code_simp

theorem fallback_path_sound_witness:
  "sorts_descending stable_sort_descending \<and>
   match_with_feedback_loop stable_sort_descending fit_first [S1, S4] [T1] None
     = Inr example_fallback_schedule \<and>
   slot_sound [T1] [S1, S4] (example_fallback_schedule ! 1) \<and>
   int (count_pair example_fallback_schedule (teacher_id T1) ''Mon9'') \<le> max_students_per_slot T1 \<and>
   fallback_attempt (fit_first []) (increment (teacher_slots_init [T1]) 1 ''Mon9'') S4 [T1]
     = Inr (Some (1, ''Mon9'', 1)) \<and>
   (\<exists>teacher_row\<in>set [T1].
      teacher_id teacher_row = 1 \<and> 1 = fit_first [] (s_subjects S4) \<and>
      ''Mon9'' \<in> set (preferred_time_slots S4) \<inter> set (available_time_slots teacher_row) \<and>
      lookup (increment (teacher_slots_init [T1]) 1 ''Mon9'') 1 ''Mon9'' = Some 1 \<and>
      1 < max_students_per_slot teacher_row)"
proof -
  note sd = stable_sort_descending_sorts
  note r = example_fallback_run
  note f = example_fallback_attempt
  have a: "example_fallback_schedule ! 1 \<in> set example_fallback_schedule"
    by (simp add: example_fallback_schedule_def)
  have d: "distinct (map teacher_id [T1])" and m: "T1 \<in> set [T1]" by simp_all
  have c: "0 \<le> max_students_per_slot T1" by (simp add: T1_def)
  note th = fallback_path_sound[where srt = stable_sort_descending and fit = fit_first
      and students = "[S1, S4]" and teachers = "[T1]" and fb = None
      and sched = example_fallback_schedule and predict = "fit_first []"
      and ts = "increment (teacher_slots_init [T1]) 1 ''Mon9''" and s = S4 and tid = 1
      and slot = "''Mon9''" and c = 1]
  from th sd r a have c1: "slot_sound [T1] [S1, S4] (example_fallback_schedule ! 1)"
    by blast
  from th sd r d m c
  have c2: "int (count_pair example_fallback_schedule (teacher_id T1) ''Mon9'')
              \<le> max_students_per_slot T1"
    by blast
  from th f
  have c3: "\<exists>teacher_row\<in>set [T1].
      teacher_id teacher_row = 1 \<and> 1 = fit_first [] (s_subjects S4) \<and>
      ''Mon9'' \<in> set (preferred_time_slots S4) \<inter> set (available_time_slots teacher_row) \<and>
      lookup (increment (teacher_slots_init [T1]) 1 ''Mon9'') 1 ''Mon9'' = Some 1 \<and>
      1 < max_students_per_slot teacher_row"
    by blast
  from sd r f c1 c2 c3 show ?thesis by blast
qed

text \<open>
  Weight order of the greedy scan, for any sort that permutes the candidate rows into
  descending order of weight: a candidate with a free common slot is never passed over
  for a candidate of smaller weight.
\<close>

lemma slot_free_not_full: "slot_free ts t x c \<Longrightarrow> \<not> slot_full ts t x"
  by (simp add: slot_free_def slot_full_def)

lemma greedy_attempt_prefers_weight:
  assumes sd: "sorts_descending srt"
    and hi: "t_hi \<in> set teachers" "subjects_overlap s t_hi"
            "x \<in> set (common_slots s t_hi)" "slot_free ts t_hi x cx"
    and g: "greedy_attempt srt w ts s teachers = Inr r"
  shows "\<exists>t slot c. r = Some (t, slot, c) \<and> w (teacher_id t_hi) \<le> w (teacher_id t)"
proof -
  let ?cands = "with_weight w (filter (subjects_overlap s) teachers)"
  let ?rows = "srt ?cands"
  from g have scan: "scan_candidates ts s ?rows = Inr r" by (simp add: greedy_attempt_scan)
  from hi(1,2) have "(t_hi, w (teacher_id t_hi)) \<in> set ?cands" by (simp add: with_weight_set)
  then have member: "(t_hi, w (teacher_id t_hi)) \<in> set ?rows"
    by (simp only: sorts_descending_set[OF sd])
  have not_full: "\<not> (\<forall>y\<in>set (common_slots s t_hi). slot_full ts t_hi y)"
    using hi(3) slot_free_not_full[OF hi(4)] by blast
  show ?thesis
  proof (cases r)
    case None
    with scan have "\<forall>r\<in>set ?rows. \<forall>y\<in>set (common_slots s (fst r)). slot_full ts (fst r) y"
      by (simp add: scan_candidates_None)
    with member have "\<forall>y\<in>set (common_slots s t_hi). slot_full ts t_hi y" by fastforce
    with not_full show ?thesis by simp
  next
    case (Some p)
    obtain t slot c where p: "p = (t, slot, c)" by (cases p) auto
    with Some scan have "candidates_found ts s ?rows t slot c" by (simp add: scan_candidates_Some)
    then obtain skipped v later where
      h: "?rows = skipped @ (t, v) # later"
         "\<forall>r\<in>set skipped. \<forall>y\<in>set (common_slots s (fst r)). slot_full ts (fst r) y"
      unfolding candidates_found_def by blast
    have "(t, v) \<in> set ?rows" using h(1) by simp
    then have "(t, v) \<in> set ?cands" by (simp only: sorts_descending_set[OF sd])
    then have v: "v = w (teacher_id t)" by (simp add: with_weight_set)
    from sorts_descending_sorted[OF sd, of ?cands] h(1)
    have later: "\<forall>b\<in>set later. snd b \<le> v" by (simp add: sorted_wrt_append)
    from member h(1) have
      "(t_hi, w (teacher_id t_hi)) \<in> set skipped \<or> (t_hi, w (teacher_id t_hi)) = (t, v) \<or>
       (t_hi, w (teacher_id t_hi)) \<in> set later"
      by auto
    then have "w (teacher_id t_hi) \<le> v"
    proof (elim disjE)
      assume "(t_hi, w (teacher_id t_hi)) \<in> set skipped"
      with h(2) have "\<forall>y\<in>set (common_slots s t_hi). slot_full ts t_hi y" by fastforce
      with not_full show ?thesis by simp
    next
      assume "(t_hi, w (teacher_id t_hi)) = (t, v)"
      then have "w (teacher_id t_hi) = v" by (rule Pair_inject)
      then show ?thesis by (rule eq_refl)
    next
      assume "(t_hi, w (teacher_id t_hi)) \<in> set later"
      with later show ?thesis by fastforce
    qed
    with Some p v show ?thesis by simp
  qed
qed

lemma find_Some_split:
  "find P xs = Some x \<Longrightarrow> \<exists>ys zs. xs = ys @ x # zs \<and> P x \<and> (\<forall>y\<in>set ys. \<not> P y)"
proof (induction xs)
  case Nil
  then show ?case by simp
next
  case (Cons a xs)
  show ?case
  proof (cases "P a")
    case True
    with Cons.prems have "a = x" by simp
    with True have "a # xs = [] @ x # xs \<and> P x \<and> (\<forall>y\<in>set []. \<not> P y)" by simp
    then show ?thesis by blast
  next
    case False
    with Cons.prems have "find P xs = Some x" by simp
    from Cons.IH[OF this] obtain ys zs where "xs = ys @ x # zs" "P x" "\<forall>y\<in>set ys. \<not> P y"
      by blast
    with False have "a # xs = (a # ys) @ x # zs \<and> P x \<and> (\<forall>y\<in>set (a # ys). \<not> P y)" by simp
    then show ?thesis by blast
  qed
qed

lemma can_take_iff:
  "can_take before s t \<longleftrightarrow>
     subjects_overlap s t \<and> (\<exists>x\<in>set (common_slots s t). free_in before t x)"
  by (simp add: can_take_def list_ex_iff)

lemma first_fit_choice_None:
  "first_fit_choice teachers before s = None \<longleftrightarrow>
     (\<forall>t\<in>set teachers. subjects_overlap s t \<longrightarrow>
        (\<forall>x\<in>set (common_slots s t). \<not> free_in before t x))"
proof (cases "find (can_take before s) teachers")
  case None
  then have "\<forall>t\<in>set teachers. \<not> can_take before s t" by (simp add: find_None_iff)
  with None show ?thesis by (auto simp: first_fit_choice_def can_take_iff)
next
  case (Some t)
  from find_Some_split[OF Some] have t: "t \<in> set teachers" "can_take before s t" by auto
  then obtain x where x: "x \<in> set (common_slots s t)" "free_in before t x"
    by (auto simp: can_take_iff)
  then have "find (free_in before t) (common_slots s t) \<noteq> None" by (auto simp: find_None_iff)
  with Some have "first_fit_choice teachers before s \<noteq> None"
    by (auto simp: first_fit_choice_def)
  moreover from t x have "\<not> (\<forall>t\<in>set teachers. subjects_overlap s t \<longrightarrow>
        (\<forall>x\<in>set (common_slots s t). \<not> free_in before t x))"
    by (auto simp: can_take_iff)
  ultimately show ?thesis by blast
qed

lemma first_fit_choice_Some:
  assumes "first_fit_choice teachers before s = Some (t, slot)"
  shows "first_fit teachers s before
           (assign_student_to_slot (student_id s) (teacher_id t) slot
              (int (count_pair before (teacher_id t) slot)))"
proof -
  from assms have ft: "find (can_take before s) teachers = Some t"
    and fs: "find (free_in before t) (common_slots s t) = Some slot"
    by (auto simp: first_fit_choice_def split: option.splits)
  from find_Some_split[OF ft] obtain skipped later where
    t: "teachers = skipped @ t # later" "can_take before s t"
       "\<forall>y\<in>set skipped. \<not> can_take before s y"
    by blast
  from find_Some_split[OF fs] obtain early late where
    x: "common_slots s t = early @ slot # late" "free_in before t slot"
       "\<forall>y\<in>set early. \<not> free_in before t y"
    by blast
  from t(2) have ov: "subjects_overlap s t" by (simp add: can_take_iff)
  from t(3) have sk: "\<forall>t'\<in>set skipped. subjects_overlap s t' \<longrightarrow>
           (\<forall>x\<in>set (common_slots s t'). \<not> free_in before t' x)"
    by (auto simp: can_take_iff)
  show ?thesis unfolding first_fit_def
    apply (rule exI[of _ skipped], rule exI[of _ t], rule exI[of _ later],
           rule exI[of _ early], rule exI[of _ late])
    using t(1) ov x sk by simp
qed

lemma first_free_slot_find:
  assumes "usage_counts ts before"
  shows "first_free_slot ts (teacher_id t) (max_students_per_slot t) slots = Inr r \<Longrightarrow>
           r = map_option (\<lambda>slot. (slot, int (count_pair before (teacher_id t) slot)))
                 (find (free_in before t) slots)"
proof (induction slots)
  case Nil
  then show ?case by simp
next
  case (Cons x slots)
  show ?case
  proof (cases "lookup ts (teacher_id t) x")
    case None
    with Cons.prems show ?thesis by simp
  next
    case (Some c)
    with assms have c: "c = int (count_pair before (teacher_id t) x)"
      by (simp add: usage_counts_def)
    show ?thesis
    proof (cases "free_in before t x")
      case True
      with c Some Cons.prems show ?thesis by (auto simp: free_in_def)
    next
      case False
      with c Some Cons.prems
      have "first_free_slot ts (teacher_id t) (max_students_per_slot t) slots = Inr r"
        by (simp add: free_in_def)
      from Cons.IH[OF this] False show ?thesis by simp
    qed
  qed
qed

lemma first_fit_choice_Cons:
  "first_fit_choice (t # rest) before s =
     (if can_take before s t
      then (case find (free_in before t) (common_slots s t) of
              None \<Rightarrow> None | Some slot \<Rightarrow> Some (t, slot))
      else first_fit_choice rest before s)"
  by (simp add: first_fit_choice_def)

lemma scan_teachers_choice:
  assumes "usage_counts ts before"
  shows "scan_teachers ts s teachers = Inr r \<Longrightarrow>
           r = map_option (\<lambda>(t, slot). (t, slot, int (count_pair before (teacher_id t) slot)))
                 (first_fit_choice teachers before s)"
proof (induction teachers)
  case Nil
  then show ?case by (simp add: first_fit_choice_def)
next
  case (Cons t rest)
  show ?case
  proof (cases "subjects_overlap s t")
    case False
    with Cons.prems have "scan_teachers ts s rest = Inr r" by (simp add: scan_teachers_Cons)
    from Cons.IH[OF this] False show ?thesis
      by (simp add: first_fit_choice_Cons can_take_def)
  next
    case True
    show ?thesis
    proof (cases "first_free_slot ts (teacher_id t) (max_students_per_slot t) (common_slots s t)")
      case (Inl e)
      with True Cons.prems show ?thesis by (simp add: scan_teachers_Cons)
    next
      case (Inr q)
      from first_free_slot_find[OF assms Inr]
      have q: "q = map_option (\<lambda>slot. (slot, int (count_pair before (teacher_id t) slot)))
                     (find (free_in before t) (common_slots s t))" .
      show ?thesis
      proof (cases "find (free_in before t) (common_slots s t)")
        case None
        then have "\<not> can_take before s t" by (simp add: can_take_def find_None_iff list_ex_iff)
        moreover from None q Inr True Cons.prems have "scan_teachers ts s rest = Inr r"
          by (simp add: scan_teachers_Cons)
        ultimately show ?thesis using Cons.IH by (simp add: first_fit_choice_Cons)
      next
        case (Some slot)
        from find_Some_split[OF Some] have "can_take before s t"
          using True by (auto simp: can_take_iff)
        with Some q Inr True Cons.prems show ?thesis
          by (simp add: scan_teachers_Cons first_fit_choice_Cons)
      qed
    qed
  qed
qed

lemma baseline_loop_schedule:
  "usage_counts ts acc \<Longrightarrow> baseline_loop teachers ts acc studs = Inr (ts', sched) \<Longrightarrow>
     sched = first_fit_schedule teachers acc studs"
proof (induction studs arbitrary: ts acc)
  case Nil
  then show ?case by simp
next
  case (Cons s rest)
  show ?case
  proof (cases "scan_teachers ts s teachers")
    case (Inl e)
    with Cons.prems show ?thesis by simp
  next
    case (Inr r)
    note choice = scan_teachers_choice[OF Cons.prems(1) Inr]
    show ?thesis
    proof (cases r)
      case None
      with choice have "first_fit_choice teachers acc s = None" by simp
      moreover from None Inr Cons.prems(2)
      have "baseline_loop teachers ts acc rest = Inr (ts', sched)" by simp
      ultimately show ?thesis using Cons.IH[OF Cons.prems(1)] by simp
    next
      case (Some p)
      obtain t slot c where p: "p = (t, slot, c)" by (cases p) auto
      with Some choice have ch: "first_fit_choice teachers acc s = Some (t, slot)"
        and c: "c = int (count_pair acc (teacher_id t) slot)"
        by (auto split: prod.splits)
      let ?a = "assign_student_to_slot (student_id s) (teacher_id t) slot c"
      from Inr Some p have "scan_found ts s teachers t slot c" by (simp add: scan_teachers_Some)
      then have "lookup ts (teacher_id t) slot = Some c" by (rule scan_found_lookup)
      with Cons.prems(1) have u: "usage_counts (increment ts (teacher_id t) slot) (acc @ [?a])"
        by (rule usage_counts_commit)
      from Inr Some p Cons.prems(2)
      have "baseline_loop teachers (increment ts (teacher_id t) slot) (acc @ [?a]) rest
              = Inr (ts', sched)"
        by simp
      from Cons.IH[OF u this] ch c show ?thesis by simp
    qed
  qed
qed

lemma baseline_schedule:
  assumes "match_students_to_teachers students teachers = Inr sched"
  shows "sched = first_fit_schedule teachers [] students"
proof -
  from assms obtain ts' where
    "baseline_loop teachers (teacher_slots_init teachers) [] students = Inr (ts', sched)"
    by (auto simp: match_students_to_teachers_def split: sum.splits)
  with usage_counts_init show ?thesis by (rule baseline_loop_schedule)
qed

text \<open>
  C7 (amended): the baseline matcher handles the students in input order, at most one
  assignment each. A student is assigned exactly when some teacher shares a subject with
  it and has a common slot below capacity, and then to the first such teacher in input
  order, on the first such slot of the sorted common slots; teachers that share a
  subject and have no such slot are passed over. The returned schedule is the first-fit
  schedule, and with pairwise distinct teacher ids the matcher always returns it.
\<close>

theorem baseline_first_fit:
  "(match_students_to_teachers students teachers = Inr sched \<longrightarrow>
      sched = first_fit_schedule teachers [] students \<and>
      subseq (map a_student_id sched) (map student_id students) \<and>
      (\<forall>i<length sched. \<exists>s\<in>set students. first_fit teachers s (take i sched) (sched ! i))) \<and>
   (distinct (map teacher_id teachers) \<longrightarrow>
      match_students_to_teachers students teachers
        = Inr (first_fit_schedule teachers [] students)) \<and>
   ((first_fit_choice teachers before s = None) =
      (\<forall>t\<in>set teachers. subjects_overlap s t \<longrightarrow>
         (\<forall>x\<in>set (common_slots s t). \<not> free_in before t x))) \<and>
   (first_fit_choice teachers before s = Some (t, slot) \<longrightarrow>
      first_fit teachers s before
        (assign_student_to_slot (student_id s) (teacher_id t) slot
           (int (count_pair before (teacher_id t) slot))))"
proof (intro conjI impI)
  assume run: "match_students_to_teachers students teachers = Inr sched"
  then show "sched = first_fit_schedule teachers [] students" by (rule baseline_schedule)
  from run obtain ts' where
    "baseline_loop teachers (teacher_slots_init teachers) [] students = Inr (ts', sched)"
    by (auto simp: match_students_to_teachers_def split: sum.splits)
  from baseline_loop_students[OF this]
  show "subseq (map a_student_id sched) (map student_id students)" by simp
  from baseline_each_first_fit[OF run]
  show "\<forall>i<length sched. \<exists>s\<in>set students. first_fit teachers s (take i sched) (sched ! i)"
    by (simp add: each_commit_def baseline_commit_def)
next
  assume "distinct (map teacher_id teachers)"
  from baseline_returns[OF this, of students] obtain sched' where
    r: "match_students_to_teachers students teachers = Inr sched'" by blast
  with baseline_schedule[OF r]
  show "match_students_to_teachers students teachers
          = Inr (first_fit_schedule teachers [] students)"
    by simp
next
  show "(first_fit_choice teachers before s = None) =
      (\<forall>t\<in>set teachers. subjects_overlap s t \<longrightarrow>
         (\<forall>x\<in>set (common_slots s t). \<not> free_in before t x))"
    by (rule first_fit_choice_None)
next
  assume "first_fit_choice teachers before s = Some (t, slot)"
  then show "first_fit teachers s before
        (assign_student_to_slot (student_id s) (teacher_id t) slot
           (int (count_pair before (teacher_id t) slot)))"
    by (rule first_fit_choice_Some)
qed

theorem baseline_first_fit_witness:
  "match_students_to_teachers [S1, S2, S3] [T1, T2] = Inr example_schedule \<and>
   distinct (map teacher_id [T1, T2]) \<and>
   first_fit_schedule [T1, T2] [] [S1, S2, S3] = example_schedule \<and>
   subseq (map a_student_id example_schedule) (map student_id [S1, S2, S3]) \<and>
   2 < length example_schedule \<and>
   (\<exists>s\<in>set [S1, S2, S3]. first_fit [T1, T2] s (take 2 example_schedule) (example_schedule ! 2)) \<and>
   first_fit_choice [T1, T2] (take 2 example_schedule) S3 = Some (T2, ''Mon9'') \<and>
   first_fit [T1, T2] S3 (take 2 example_schedule)
     (assign_student_to_slot (student_id S3) (teacher_id T2) ''Mon9''
        (int (count_pair (take 2 example_schedule) (teacher_id T2) ''Mon9'')))"
proof -
  note r = example_baseline_run
  have d: "distinct (map teacher_id [T1, T2])" by (simp add: T1_def T2_def)
  have l: "2 < length example_schedule" by (simp add: example_schedule_def)
  have ch: "first_fit_choice [T1, T2] (take 2 example_schedule) S3 = Some (T2, ''Mon9'')"
    by code_simp
  note th = baseline_first_fit[where students = "[S1, S2, S3]" and teachers = "[T1, T2]"
      and sched = example_schedule and before = "take 2 example_schedule" and s = S3
      and t = T2 and slot = "''Mon9''"]
  from th r have c1: "first_fit_schedule [T1, T2] [] [S1, S2, S3] = example_schedule"
    by simp
  from th r have c2: "subseq (map a_student_id example_schedule) (map student_id [S1, S2, S3])"
    by blast
  from th r l
  have c3: "\<exists>s\<in>set [S1, S2, S3]. first_fit [T1, T2] s (take 2 example_schedule) (example_schedule ! 2)"
    by blast
  from th ch
  have c4: "first_fit [T1, T2] S3 (take 2 example_schedule)
     (assign_student_to_slot (student_id S3) (teacher_id T2) ''Mon9''
        (int (count_pair (take 2 example_schedule) (teacher_id T2) ''Mon9'')))"
    by blast
  from r d l ch c1 c2 c3 c4 show ?thesis by blast
qed

text \<open>
  C7 as stated: S3 is not assigned to the first teacher in input order that shares a
  subject with it (T1, full by then) but to T2.
\<close>

theorem first_overlapping_teacher_counterexample:
  "match_students_to_teachers [S1, S2, S3] [T1, T2] = Inr example_schedule \<and>
   a_student_id (example_schedule ! 2) = student_id S3 \<and>
   find (subjects_overlap S3) [T1, T2] = Some T1 \<and>
   a_teacher_id (example_schedule ! 2) \<noteq> teacher_id T1"
proof -
  have "a_student_id (example_schedule ! 2) = student_id S3" by code_simp
  moreover have "find (subjects_overlap S3) [T1, T2] = Some T1" by code_simp
  moreover have "a_teacher_id (example_schedule ! 2) \<noteq> teacher_id T1" by code_simp
  ultimately show ?thesis using example_baseline_run by blast
qed


lemma fallback_attempt_unknown:
  assumes "predict (s_subjects s) \<notin> teacher_id ` set teachers"
  shows "fallback_attempt predict ts s teachers = Inl IndexError"
proof -
  have "teacher_id t \<noteq> predict (s_subjects s)" if "t \<in> set teachers" for t
  proof
    assume "teacher_id t = predict (s_subjects s)"
    with that have "predict (s_subjects s) \<in> teacher_id ` set teachers" by (metis imageI)
    with assms show False by simp
  qed
  then have "filter (\<lambda>t. teacher_id t = predict (s_subjects s)) teachers = []"
    by (simp add: filter_empty_conv)
  then show ?thesis by (simp add: fallback_attempt_def)
qed

lemma fallback_attempt_known:
  assumes "fallback_attempt predict ts s teachers = Inr r"
  shows "predict (s_subjects s) \<in> teacher_id ` set teachers"
  using assms fallback_attempt_unknown[where predict = predict and s = s and teachers = teachers and ts = ts]
  by auto

lemma feedback_loop_unknown:
  assumes "greedy_attempt srt w ts s teachers = Inr None"
    and "predict (s_subjects s) \<notin> teacher_id ` set teachers"
  shows "feedback_loop srt w predict teachers ts acc (s # rest) = Inl IndexError"
  using assms fallback_attempt_unknown[where predict = predict and s = s and teachers = teachers and ts = ts]
  by simp

lemma feedback_loop_unmatched:
  "feedback_loop srt w predict teachers ts acc studs = Inr (ts', sched) \<Longrightarrow> s \<in> set studs \<Longrightarrow>
     student_id s \<in> a_student_id ` set sched \<or>
     predict (s_subjects s) \<in> teacher_id ` set teachers"
proof (induction studs arbitrary: ts acc)
  case Nil
  then show ?case by simp
next
  case (Cons s0 rest)
  let ?goal = "student_id s \<in> a_student_id ` set sched \<or>
     predict (s_subjects s) \<in> teacher_id ` set teachers"
  have commit: ?goal
    if run: "feedback_loop srt w predict teachers ts1
               (acc @ [assign_student_to_slot (student_id s0) tid slot c]) rest = Inr (ts', sched)"
    for ts1 tid slot c
  proof (cases "s = s0")
    case True
    from feedback_loop_students[OF run] obtain new where
      "sched = (acc @ [assign_student_to_slot (student_id s0) tid slot c]) @ new" by blast
    then have "assign_student_to_slot (student_id s0) tid slot c \<in> set sched" by simp
    then have "a_student_id (assign_student_to_slot (student_id s0) tid slot c)
                 \<in> a_student_id ` set sched"
      by (rule imageI)
    with True show ?thesis by simp
  next
    case False
    with Cons.prems(2) have "s \<in> set rest" by simp
    from Cons.IH[OF run this] show ?thesis .
  qed
  show ?case
  proof (cases "greedy_attempt srt w ts s0 teachers")
    case (Inl e)
    with Cons.prems show ?thesis by simp
  next
    case (Inr r)
    note g = this
    show ?thesis
    proof (cases r)
      case (Some p)
      obtain t slot c where "p = (t, slot, c)" by (cases p) auto
      with g Some Cons.prems(1) commit[of "increment ts (teacher_id t) slot" "teacher_id t" slot c]
      show ?thesis by simp
    next
      case None
      note n = this
      show ?thesis
      proof (cases "fallback_attempt predict ts s0 teachers")
        case (Inl e)
        with g n Cons.prems show ?thesis by simp
      next
        case (Inr r')
        note f = this
        show ?thesis
        proof (cases r')
          case (Some p)
          obtain tid slot c where "p = (tid, slot, c)" by (cases p) auto
          with g n f Some Cons.prems(1) commit[of "increment ts tid slot" tid slot c]
          show ?thesis by simp
        next
          case None
          with g n f Cons.prems(1)
          have run: "feedback_loop srt w predict teachers ts acc rest = Inr (ts', sched)" by simp
          show ?thesis
          proof (cases "s = s0")
            case True
            with fallback_attempt_known[OF f] show ?thesis by simp
          next
            case False
            with Cons.prems(2) have "s \<in> set rest" by simp
            from Cons.IH[OF run this] show ?thesis .
          qed
        qed
      qed
    qed
  qed
qed


















text \<open>
  C2, what the code does: whenever the baseline matcher returns the empty schedule,
  \<open>match_with_feedback_loop\<close> raises KeyError while training the recommender, before it
  handles any student.
\<close>

theorem empty_training_set_raises:
  assumes "match_students_to_teachers students teachers = Inr []"
  shows "match_with_feedback_loop srt fit students teachers fb = Inl KeyError"
  using assms by (simp add: match_with_feedback_loop_def train_teacher_recommender_def)

theorem empty_training_set_raises_witness:
  "match_students_to_teachers [S4] [T1] = Inr [] \<and>
   match_with_feedback_loop stable_sort_descending fit_first [S4] [T1] None = Inl KeyError"
proof -
  have b: "match_students_to_teachers [S4] [T1] = Inr []" by code_simp
  from empty_training_set_raises[OF b] b show ?thesis by blast
qed

end
